theory Spec2Isabelle
  imports Main "HOL-Library.AList" "HOL-Library.Sublist"
begin

section \<open>cf-expandables: the duration heuristics\<close>

text \<open>
  The plugin of \<^verbatim>\<open>src/js/cf-expandables.js\<close> exposes three pure functions on
  \<^verbatim>\<open>$.fn.expandable\<close>. Their JSDoc types every parameter as \<^verbatim>\<open>{integer}\<close>, so
  JavaScript numbers are modelled as \<^typ>\<open>int\<close>.
\<close>

text \<open>
  \<^verbatim>\<open>
  function constrainValue( min, max, duration ) {
    if ( duration > max ) {
      duration = max;
    } else if ( duration < min ) {
      duration = min;
    }
    return duration;
  }
  \<close>
\<close>

definition constrainValue :: "int \<Rightarrow> int \<Rightarrow> int \<Rightarrow> int" where
  "constrainValue min_v max_v duration =
     (if duration > max_v then max_v
      else if duration < min_v then min_v
      else duration)"

text \<open>\<^verbatim>\<open>return $.fn.expandable.constrainValue( 450, 900, height * 4 );\<close>\<close>

definition calculateExpandDuration :: "int \<Rightarrow> int" where
  "calculateExpandDuration height = constrainValue 450 900 (height * 4)"

text \<open>\<^verbatim>\<open>return $.fn.expandable.constrainValue( 350, 900, height * 2 );\<close>\<close>

definition calculateCollapseDuration :: "int \<Rightarrow> int" where
  "calculateCollapseDuration height = constrainValue 350 900 (height * 2)"

text \<open>
  The clamp of the specification, in the specification's own case order: the minimum
  when the value is below it, the maximum when the value is above it, the value
  otherwise. It is compared with \<^const>\<open>constrainValue\<close> below.
\<close>

definition clamp_spec :: "int \<Rightarrow> int \<Rightarrow> int \<Rightarrow> int" where
  "clamp_spec min_v max_v v =
     (if v < min_v then min_v else if v > max_v then max_v else v)"

section \<open>The page: DOM elements that carry the widget\<close>

text \<open>
  jQuery and the browser's DOM are external to the repository. The part of them that the
  plugin uses is modelled as follows. A page is the list of its elements in document
  order, and an element is named by its position. Every element records its parent, its
  \<^verbatim>\<open>class\<close> attribute (a string, as the DOM has it), its other attributes (names with
  their values), the truth value that \<^verbatim>\<open>Boolean( $(e).data( 'accordion' ) )\<close> has on it,
  its style as far as the slides change it (whether it is displayed, and its height in
  pixels), the slide calls that were made on it, the click handlers bound on it, and the
  widget properties that \<^verbatim>\<open>create\<close> has copied onto it (\<open>None\<close> for an element on
  which \<^verbatim>\<open>.expandable()\<close> was never called: such an element has no \<^verbatim>\<open>expand\<close>,
  \<^verbatim>\<open>collapse\<close> or \<^verbatim>\<open>toggle\<close> method).
  A jQuery object is needed with at most one element only (\<^verbatim>\<open>$el\<close>, and the
  \<^verbatim>\<open>:first\<close> matches \<^verbatim>\<open>$content\<close> and \<^verbatim>\<open>$target\<close>): it is a \<^typ>\<open>nat option\<close>,
  \<open>None\<close> being the empty set, on which every jQuery setter does nothing.
\<close>

datatype error = TypeError

datatype slide = SlideDown | SlideUp

text \<open>
  The instance properties: \<^verbatim>\<open>defaultProperties\<close> merged with the options, then
  \<^verbatim>\<open>isExpanded\<close>, \<^verbatim>\<open>$content\<close> and \<^verbatim>\<open>$target\<close> set by \<^verbatim>\<open>init\<close> and
  \<^verbatim>\<open>initUI\<close>. \<^verbatim>\<open>$el\<close> is the element that holds the record.
\<close>

record widget =
  isInAccordion :: bool
  expandedClass :: string
  throttleDuration :: int
  isExpanded :: bool
  jq_content :: "nat option"
  jq_target :: "nat option"

text \<open>
  The closure that \<^verbatim>\<open>_throttle( duration, callback, context )\<close> returns: its
  \<^verbatim>\<open>duration\<close>, its variable \<^verbatim>\<open>isThrottling\<close>, and the deadlines of the timeouts
  it has set with \<^verbatim>\<open>window.setTimeout\<close> that have not fired yet.
\<close>

record handler =
  h_duration :: int
  isThrottling :: bool
  h_timeouts :: "int list"

record element =
  el_parent :: "nat option"
  el_class :: string
  el_attrs :: "(string \<times> string) list"
  el_data_accordion :: bool
  el_display :: bool
  el_height :: int
  el_slides :: "(slide \<times> int option) list"
  el_click :: "handler list"
  el_widget :: "widget option"

type_synonym page = "element list"

definition get_el :: "page \<Rightarrow> nat \<Rightarrow> element option" where
  "get_el page i = (if i < length page then Some (page ! i) else None)"

definition update_el :: "nat \<Rightarrow> (element \<Rightarrow> element) \<Rightarrow> page \<Rightarrow> page" where
  "update_el i f page = (if i < length page then page[i := f (page ! i)] else page)"

definition widget_at :: "page \<Rightarrow> nat \<Rightarrow> widget option" where
  "widget_at page i = (case get_el page i of None \<Rightarrow> None | Some e \<Rightarrow> el_widget e)"

subsection \<open>The jQuery calls of the plugin\<close>

text \<open>
  The calls on the \<^verbatim>\<open>class\<close> attribute follow jQuery 3 (\<^verbatim>\<open>src/attributes/classes.js\<close>):
  \<^verbatim>\<open>addClass\<close> and \<^verbatim>\<open>removeClass\<close> split their argument into class names and do
  nothing when there is none, \<^verbatim>\<open>hasClass\<close> searches its argument as it is.
\<close>

text \<open>
  The white space at which jQuery and the browser split a \<^verbatim>\<open>class\<close> attribute: space,
  tab, line feed, form feed and carriage return (\<^verbatim>\<open>rnothtmlwhite = /[^\x20\t\r\n\f]+/g\<close>).
\<close>

definition is_space :: "char \<Rightarrow> bool" where
  "is_space c = (c = CHR '' '' \<or> c = CHR 0x09 \<or> c = CHR 0x0A \<or> c = CHR 0x0C \<or> c = CHR 0x0D)"

text \<open>
  The maximal runs without white space of a string, in order; the first argument is the
  run that is being read.
\<close>

fun split_ws :: "string \<Rightarrow> string \<Rightarrow> string list" where
  "split_ws cur [] = (if cur = [] then [] else [cur])"
| "split_ws cur (c # cs) =
     (if is_space c then (if cur = [] then split_ws [] cs else cur # split_ws [] cs)
      else split_ws (cur @ [c]) cs)"

text \<open>jQuery's \<^verbatim>\<open>classesToArray( value )\<close>, that is \<^verbatim>\<open>value.match( rnothtmlwhite ) || []\<close>.\<close>

definition classesToArray :: "string \<Rightarrow> string list" where
  "classesToArray v = split_ws [] v"

text \<open>\<^verbatim>\<open>tokens.join( " " )\<close>\<close>

fun join_sp :: "string list \<Rightarrow> string" where
  "join_sp [] = []"
| "join_sp [t] = t"
| "join_sp (t # u # ts) = t @ CHR '' '' # join_sp (u # ts)"

text \<open>jQuery's \<^verbatim>\<open>stripAndCollapse( value )\<close>: the tokens of the value joined by one space.\<close>

definition stripAndCollapse :: "string \<Rightarrow> string" where
  "stripAndCollapse v = join_sp (classesToArray v)"

text \<open>
  A CSS class selector \<^verbatim>\<open>.cls\<close> matches an element when \<^verbatim>\<open>cls\<close> is one of the tokens of
  its \<^verbatim>\<open>class\<close> attribute.
\<close>

definition matches :: "nat \<Rightarrow> string \<Rightarrow> page \<Rightarrow> bool" where
  "matches i cls page =
     (case get_el page i of None \<Rightarrow> False | Some e \<Rightarrow> cls \<in> set (classesToArray (el_class e)))"

text \<open>
  \<^verbatim>\<open>$el.hasClass( selector )\<close> does not split its argument: it looks for
  \<^verbatim>\<open>" " + selector + " "\<close> in \<^verbatim>\<open>" " + stripAndCollapse( class ) + " "\<close>
  (\<^verbatim>\<open>indexOf( className ) > -1\<close>).
\<close>

definition class_has :: "string \<Rightarrow> string \<Rightarrow> bool" where
  "class_has selector cls =
     sublist (CHR '' '' # selector @ [CHR '' ''])
             (CHR '' '' # stripAndCollapse cls @ [CHR '' ''])"

definition hasClass :: "nat \<Rightarrow> string \<Rightarrow> page \<Rightarrow> bool" where
  "hasClass i selector page =
     (case get_el page i of None \<Rightarrow> False | Some e \<Rightarrow> class_has selector (el_class e))"

text \<open>
  \<^verbatim>\<open>$el.addClass( value )\<close> splits the value at white space. When it holds no class name
  nothing happens; else every name that the element does not have yet is appended, and
  the attribute is set to the names joined by one space.
\<close>

definition add_class :: "string \<Rightarrow> string list \<Rightarrow> string list" where
  "add_class clazz cur = (if clazz \<in> set cur then cur else cur @ [clazz])"

definition class_added :: "string \<Rightarrow> string \<Rightarrow> string" where
  "class_added v cls =
     (if classesToArray v = [] then cls
      else join_sp (fold add_class (classesToArray v) (classesToArray cls)))"

definition addClass :: "nat \<Rightarrow> string \<Rightarrow> page \<Rightarrow> page" where
  "addClass i v page = update_el i (\<lambda>e. e\<lparr>el_class := class_added v (el_class e)\<rparr>) page"

text \<open>
  \<^verbatim>\<open>$el.removeClass( value )\<close> splits the value likewise. When it holds no class name
  nothing happens; else every occurrence of each of its names is removed.
\<close>

definition class_removed :: "string \<Rightarrow> string \<Rightarrow> string" where
  "class_removed v cls =
     (if classesToArray v = [] then cls
      else join_sp (fold removeAll (classesToArray v) (classesToArray cls)))"

definition removeClass :: "nat \<Rightarrow> string \<Rightarrow> page \<Rightarrow> page" where
  "removeClass i v page =
     update_el i (\<lambda>e. e\<lparr>el_class := class_removed v (el_class e)\<rparr>) page"

text \<open>\<^verbatim>\<open>$x.attr( name )\<close>: \<open>None\<close> is JavaScript's \<^verbatim>\<open>undefined\<close>.\<close>

definition attr_get :: "nat option \<Rightarrow> string \<Rightarrow> page \<Rightarrow> string option" where
  "attr_get jq name page =
     (case jq of None \<Rightarrow> None
      | Some j \<Rightarrow> (case get_el page j of None \<Rightarrow> None
          | Some e \<Rightarrow> map_of (el_attrs e) name))"

text \<open>
  \<^verbatim>\<open>$x.attr( name, value )\<close>. With the value \<^verbatim>\<open>undefined\<close> jQuery takes the call for
  the getter and sets nothing.
\<close>

definition attr_set :: "nat option \<Rightarrow> string \<Rightarrow> string option \<Rightarrow> page \<Rightarrow> page" where
  "attr_set jq name v page =
     (case jq of None \<Rightarrow> page
      | Some j \<Rightarrow> (case v of None \<Rightarrow> page
          | Some s \<Rightarrow>
              update_el j (\<lambda>e. e\<lparr>el_attrs := AList.update name s (el_attrs e)\<rparr>) page))"

text \<open>
  \<^verbatim>\<open>$x.height()\<close>: the height that the element has when the call is made, in whole
  pixels as the JSDoc of the duration functions types it; nothing on the empty set.
\<close>

definition jq_height :: "nat option \<Rightarrow> page \<Rightarrow> int option" where
  "jq_height jq page =
     (case jq of None \<Rightarrow> None
      | Some j \<Rightarrow> (case get_el page j of None \<Rightarrow> None | Some e \<Rightarrow> Some (el_height e)))"

text \<open>
  \<^verbatim>\<open>$x.slideDown( { duration: d, ... } )\<close> and \<^verbatim>\<open>$x.slideUp( ... )\<close> hand the slide to
  jQuery's animation engine and return. The call is recorded on the element; what the
  engine then does to the element, and when, is \<^verbatim>\<open>animate\<close> below. The duration
  \<open>None\<close> is the \<^verbatim>\<open>NaN\<close> that the duration functions give for the \<^verbatim>\<open>undefined\<close>
  height of an empty set, on which no call is recorded.
\<close>

definition jq_slide :: "slide \<Rightarrow> nat option \<Rightarrow> int option \<Rightarrow> page \<Rightarrow> page" where
  "jq_slide dir jq d page =
     (case jq of None \<Rightarrow> page
      | Some j \<Rightarrow> update_el j (\<lambda>e. e\<lparr>el_slides := el_slides e @ [(dir, d)]\<rparr>) page)"

text \<open>
  The animation engine works on the style of the elements only: a slide changes whether
  its element is displayed and how high it is, inside the call that requests it or at
  any later time. \<open>animate f\<close> is an arbitrary such change: the element at position \<open>k\<close>
  gets the display and the height \<open>f k\<close>.
\<close>

definition animate :: "(nat \<Rightarrow> bool \<times> int) \<Rightarrow> page \<Rightarrow> page" where
  "animate f page =
     map (\<lambda>(k, e). e\<lparr>el_display := fst (f k), el_height := snd (f k)\<rparr>) (enumerate 0 page)"

definition parent_of :: "page \<Rightarrow> nat \<Rightarrow> nat option" where
  "parent_of page i = (case get_el page i of None \<Rightarrow> None | Some e \<Rightarrow> el_parent e)"

text \<open>
  The ancestors of an element, nearest first. Positions follow document order, in which
  a parent comes before its children, so a parent link is followed only backwards.
\<close>

function ancestors :: "page \<Rightarrow> nat \<Rightarrow> nat list" where
  "ancestors page i =
     (case parent_of page i of None \<Rightarrow> []
      | Some p \<Rightarrow> if p < i then p # ancestors page p else [])"
  by pat_completeness auto
termination
  by (relation "measure snd") auto

declare ancestors.simps [simp del]

text \<open>\<^verbatim>\<open>$el.parents( '.cls' )\<close>\<close>

definition jq_parents :: "string \<Rightarrow> nat \<Rightarrow> page \<Rightarrow> nat list" where
  "jq_parents cls i page = filter (\<lambda>p. matches p cls page) (ancestors page i)"

text \<open>\<^verbatim>\<open>$el.siblings( '.cls' )\<close>: the other children of the parent that have the class.\<close>

definition jq_siblings :: "string \<Rightarrow> nat \<Rightarrow> page \<Rightarrow> nat list" where
  "jq_siblings cls i page =
     (case parent_of page i of None \<Rightarrow> []
      | Some p \<Rightarrow> filter (\<lambda>j. j \<noteq> i \<and> parent_of page j = Some p \<and> matches j cls page)
                   [0..<length page])"

text \<open>\<^verbatim>\<open>$el.find( '.cls:first' )\<close>: the first descendant, in document order, with the class.\<close>

definition jq_find_first :: "string \<Rightarrow> nat \<Rightarrow> page \<Rightarrow> nat option" where
  "jq_find_first cls i page =
     List.find (\<lambda>j. i \<in> set (ancestors page j) \<and> matches j cls page) [0..<length page]"

text \<open>
  \<^verbatim>\<open>Boolean( $el.parents( '.expandable-group' ).data( 'accordion' ) )\<close>: jQuery reads the
  data of the first element of the set, and \<^verbatim>\<open>undefined\<close> on the empty set.
\<close>

definition accordion_data :: "nat \<Rightarrow> page \<Rightarrow> bool" where
  "accordion_data i page =
     (case jq_parents ''expandable-group'' i page of [] \<Rightarrow> False
      | g # _ \<Rightarrow> (case get_el page g of None \<Rightarrow> False | Some e \<Rightarrow> el_data_accordion e))"

section \<open>The widget: expand, collapse, toggle\<close>

text \<open>
  A method of the widget is called on an element (\<^verbatim>\<open>this\<close>). It mutates the page, so it
  takes the page and returns the new one. A call on an element without the method throws
  a \<^verbatim>\<open>TypeError\<close>; what was changed before the throw stays changed, so the error
  comes with the page at the throw.
\<close>

type_synonym outcome = "(error \<times> page) + page"

definition set_isExpanded :: "nat \<Rightarrow> bool \<Rightarrow> page \<Rightarrow> page" where
  "set_isExpanded i b page =
     update_el i (\<lambda>e. e\<lparr>el_widget := map_option (\<lambda>w. w\<lparr>isExpanded := b\<rparr>) (el_widget e)\<rparr>) page"

text \<open>
  \<^verbatim>\<open>
  expand: function expand( duration ) {
    var $content = this.$content;
    this.$target.attr( 'aria-pressed', 'true' );
    $content.attr( 'aria-expanded', 'true' );
    if ( typeof duration === 'undefined' ) {
      duration = $.fn.expandable.calculateExpandDuration( $content.height() );
    }
    this.$el.addClass( this.expandedClass );
    $content.slideDown( { duration: duration, easing: 'easeOutExpo' } );
    this.isExpanded = true;
  }
  \<close>
  The argument \<open>None\<close> is a call without duration.
\<close>

definition expand :: "int option \<Rightarrow> nat \<Rightarrow> page \<Rightarrow> outcome" where
  "expand duration i page =
     (case widget_at page i of None \<Rightarrow> Inl (TypeError, page)
      | Some w \<Rightarrow>
          let page1 = attr_set (jq_target w) ''aria-pressed'' (Some ''true'') page;
              page2 = attr_set (jq_content w) ''aria-expanded'' (Some ''true'') page1;
              d = (case duration of
                     None \<Rightarrow> map_option calculateExpandDuration (jq_height (jq_content w) page2)
                   | Some d' \<Rightarrow> Some d');
              page3 = addClass i (expandedClass w) page2;
              page4 = jq_slide SlideDown (jq_content w) d page3
          in Inr (set_isExpanded i True page4))"

text \<open>
  \<^verbatim>\<open>
  collapse: function collapse( duration ) {
    var $content = this.$content;
    this.$target.attr( 'aria-pressed', 'false' );
    $content.attr( 'aria-expanded', 'false' );
    if ( typeof duration === 'undefined' ) {
      duration = $.fn.expandable.calculateCollapseDuration( $content.height() );
    }
    this.$el.removeClass( this.expandedClass );
    $content.slideUp( { duration: duration, easing: 'easeOutExpo' } );
    this.isExpanded = false;
  }
  \<close>
\<close>

definition collapse :: "int option \<Rightarrow> nat \<Rightarrow> page \<Rightarrow> outcome" where
  "collapse duration i page =
     (case widget_at page i of None \<Rightarrow> Inl (TypeError, page)
      | Some w \<Rightarrow>
          let page1 = attr_set (jq_target w) ''aria-pressed'' (Some ''false'') page;
              page2 = attr_set (jq_content w) ''aria-expanded'' (Some ''false'') page1;
              d = (case duration of
                     None \<Rightarrow> map_option calculateCollapseDuration (jq_height (jq_content w) page2)
                   | Some d' \<Rightarrow> Some d');
              page3 = removeClass i (expandedClass w) page2;
              page4 = jq_slide SlideUp (jq_content w) d page3
          in Inr (set_isExpanded i False page4))"

text \<open>
  \<^verbatim>\<open>.each( function( index, sibling ) { sibling.collapse(); } )\<close>: the siblings in
  order; a throw ends the loop.
\<close>

fun each_collapse :: "nat list \<Rightarrow> page \<Rightarrow> outcome" where
  "each_collapse [] page = Inr page"
| "each_collapse (sibling # rest) page =
     (case collapse None sibling page of
        Inl e \<Rightarrow> Inl e
      | Inr page' \<Rightarrow> each_collapse rest page')"

text \<open>
  \<^verbatim>\<open>
  toggle: function toggle( event ) {
    event.preventDefault();
    event.stopPropagation();
    if ( this.isExpanded ) {
      this.collapse();
    } else {
      if ( this.isInAccordion ) {
        this.$el.siblings( '.expandable' )
        .each( function( index, sibling ) { sibling.collapse(); } );
      }
      this.expand();
    }
  }
  \<close>
  The two calls on the event change the event only, and nothing of the page.
\<close>

definition toggle :: "nat \<Rightarrow> page \<Rightarrow> outcome" where
  "toggle i page =
     (case widget_at page i of None \<Rightarrow> Inl (TypeError, page)
      | Some w \<Rightarrow>
          if isExpanded w then collapse None i page
          else (case (if isInAccordion w
                      then each_collapse (jq_siblings ''expandable'' i page) page
                      else Inr page) of
                  Inl e \<Rightarrow> Inl e
                | Inr page' \<Rightarrow> expand None i page'))"

section \<open>Initialisation\<close>

text \<open>
  The options that \<^verbatim>\<open>create\<close> recognises are the keys of \<^verbatim>\<open>defaultProperties\<close>; a key
  that the caller leaves out is \<open>None\<close>.
\<close>

record properties =
  p_isInAccordion :: bool
  p_expandedClass :: string
  p_throttleDuration :: int

record options =
  o_isInAccordion :: "bool option"
  o_expandedClass :: "string option"
  o_throttleDuration :: "int option"

text \<open>
  \<^verbatim>\<open>
  defaultProperties: {
    isInAccordion:    false,
    expandedClass:    'expandable__expanded',
    throttleDuration: 450
  }
  \<close>
\<close>

definition defaultProperties :: properties where
  "defaultProperties =
     \<lparr>p_isInAccordion = False, p_expandedClass = ''expandable__expanded'',
      p_throttleDuration = 450\<rparr>"

text \<open>
  \<^verbatim>\<open>_extend( true, {}, Expandable.defaultProperties, options )\<close>: every key that the
  options define replaces the default.
\<close>

definition extend_properties :: "properties \<Rightarrow> options \<Rightarrow> properties" where
  "extend_properties defaults opts =
     \<lparr>p_isInAccordion =
        (case o_isInAccordion opts of None \<Rightarrow> p_isInAccordion defaults | Some b \<Rightarrow> b),
      p_expandedClass =
        (case o_expandedClass opts of None \<Rightarrow> p_expandedClass defaults | Some c \<Rightarrow> c),
      p_throttleDuration =
        (case o_throttleDuration opts of None \<Rightarrow> p_throttleDuration defaults | Some d \<Rightarrow> d)\<rparr>"

definition update_widget :: "nat \<Rightarrow> (widget \<Rightarrow> widget) \<Rightarrow> page \<Rightarrow> page" where
  "update_widget i f page =
     update_el i (\<lambda>e. e\<lparr>el_widget := map_option f (el_widget e)\<rparr>) page"

text \<open>
  \<^verbatim>\<open>_throttle( duration, callback, context )\<close> returns the closure \<^verbatim>\<open>_delay\<close> with
  \<^verbatim>\<open>isThrottling = false\<close>.
\<close>

definition throttle :: "int \<Rightarrow> handler" where
  "throttle duration = \<lparr>h_duration = duration, isThrottling = False, h_timeouts = []\<rparr>"

text \<open>
  \<^verbatim>\<open>
  this.$el.on( 'click', '.expandable_target',
    _throttle( this.throttleDuration, this.toggle, this ) );
  \<close>
\<close>

definition initEvents :: "nat \<Rightarrow> page \<Rightarrow> outcome" where
  "initEvents i page =
     (case widget_at page i of None \<Rightarrow> Inl (TypeError, page)
      | Some w \<Rightarrow>
          Inr (update_el i (\<lambda>e. e\<lparr>el_click := el_click e @ [throttle (throttleDuration w)]\<rparr>)
                 page))"

text \<open>
  \<^verbatim>\<open>
  initUI: function initUI() {
    var $el = this.$el;
    for ( var uiKey in this.ui ) {
      if ( this.ui.hasOwnProperty( uiKey ) ) {
        this['$' + uiKey] = $el.find( this.ui[uiKey] + ':first' );
      }
    }
    this.$target.attr( 'aria-controls', this.$content.attr( 'id' ) );
    if ( this.isExpanded ) { this.expand( 0 ); } else { this.collapse( 0 ); }
  }
  \<close>
  with \<^verbatim>\<open>ui: { content: '.expandable_content', target: '.expandable_target' }\<close>.
\<close>

definition initUI :: "nat \<Rightarrow> page \<Rightarrow> outcome" where
  "initUI i page =
     (let page1 = update_widget i
            (\<lambda>w. w\<lparr>jq_content := jq_find_first ''expandable_content'' i page,
                   jq_target := jq_find_first ''expandable_target'' i page\<rparr>) page
      in case widget_at page1 i of None \<Rightarrow> Inl (TypeError, page1)
         | Some w \<Rightarrow>
             let page2 = attr_set (jq_target w) ''aria-controls''
                           (attr_get (jq_content w) ''id'' page1) page1
             in if isExpanded w then expand (Some 0) i page2
                else collapse (Some 0) i page2)"

text \<open>
  \<^verbatim>\<open>
  init: function init() {
    this.isInAccordion =
    Boolean( this.$el.parents( '.expandable-group' ).data( 'accordion' ) );
    this.isExpanded = this.$el.hasClass( this.expandedClass );
    this.initUI();
    this.initEvents();
  }
  \<close>
\<close>

definition init :: "nat \<Rightarrow> page \<Rightarrow> outcome" where
  "init i page =
     (let page1 = update_widget i (\<lambda>w. w\<lparr>isInAccordion := accordion_data i page\<rparr>) page;
          page2 = update_widget i
            (\<lambda>w. w\<lparr>isExpanded := hasClass i (expandedClass w) page1\<rparr>) page1
      in case initUI i page2 of
           Inl e \<Rightarrow> Inl e
         | Inr page3 \<Rightarrow> initEvents i page3)"

text \<open>
  \<^verbatim>\<open>
  create: function create( options ) {
    var properties = _extend( true, {}, Expandable.defaultProperties, options );
    _extend( this, Expandable, properties );
    this.init();
  }
  \<close>
  The second \<^verbatim>\<open>_extend\<close> copies the methods and the properties onto the element; the
  properties that \<^verbatim>\<open>init\<close> sets later are \<^verbatim>\<open>undefined\<close> on a fresh element until then
  (\<open>False\<close> and the empty set here), and keep their values on an element that is
  initialised again.
\<close>

definition create :: "options \<Rightarrow> nat \<Rightarrow> page \<Rightarrow> outcome" where
  "create opts i page =
     (let props = extend_properties defaultProperties opts;
          page1 = update_el i
            (\<lambda>e. e\<lparr>el_widget := Some
               (case el_widget e of
                  None \<Rightarrow> \<lparr>isInAccordion = p_isInAccordion props,
                            expandedClass = p_expandedClass props,
                            throttleDuration = p_throttleDuration props,
                            isExpanded = False, jq_content = None, jq_target = None\<rparr>
                | Some w \<Rightarrow> w\<lparr>isInAccordion := p_isInAccordion props,
                               expandedClass := p_expandedClass props,
                               throttleDuration := p_throttleDuration props\<rparr>)\<rparr>) page
      in init i page1)"

section \<open>The throttle\<close>






section \<open>What is observed of a widget\<close>

text \<open>A jQuery object of at most one element holds an element of the page.\<close>

definition present :: "nat option \<Rightarrow> page \<Rightarrow> bool" where
  "present jq page = (case jq of None \<Rightarrow> False | Some j \<Rightarrow> j < length page)"

text \<open>\<^verbatim>\<open>isExpanded\<close> of the widget on an element.\<close>

definition expanded_at :: "page \<Rightarrow> nat \<Rightarrow> bool" where
  "expanded_at page i = (case widget_at page i of None \<Rightarrow> False | Some w \<Rightarrow> isExpanded w)"

text \<open>
  The container carries the widget's \<^verbatim>\<open>expandedClass\<close> marker: what
  \<^verbatim>\<open>this.$el.hasClass( this.expandedClass )\<close> returns, as \<^verbatim>\<open>init\<close> reads it.
\<close>

definition marker_at :: "page \<Rightarrow> nat \<Rightarrow> bool" where
  "marker_at page i =
     (case widget_at page i of None \<Rightarrow> False | Some w \<Rightarrow> hasClass i (expandedClass w) page)"

definition aria_pressed :: "page \<Rightarrow> nat \<Rightarrow> string option" where
  "aria_pressed page i =
     (case widget_at page i of None \<Rightarrow> None
      | Some w \<Rightarrow> attr_get (jq_target w) ''aria-pressed'' page)"

definition aria_expanded :: "page \<Rightarrow> nat \<Rightarrow> string option" where
  "aria_expanded page i =
     (case widget_at page i of None \<Rightarrow> None
      | Some w \<Rightarrow> attr_get (jq_content w) ''aria-expanded'' page)"

text \<open>
  The observable state of the widget on an element: \<^verbatim>\<open>isExpanded\<close>, the marker class on
  the container, \<^verbatim>\<open>aria-pressed\<close> of the trigger and \<^verbatim>\<open>aria-expanded\<close> of the content.
\<close>

definition observe :: "page \<Rightarrow> nat \<Rightarrow> bool \<times> bool \<times> string option \<times> string option" where
  "observe page i =
     (expanded_at page i, marker_at page i, aria_pressed page i, aria_expanded page i)"

text \<open>The invariant of the data model, for the widget on one element.\<close>

definition consistent :: "page \<Rightarrow> nat \<Rightarrow> bool" where
  "consistent page i = (expanded_at page i = marker_at page i)"

text \<open>
  A single class name: not empty and without white space. The default
  \<^verbatim>\<open>'expandable__expanded'\<close> is one.
\<close>

definition is_class_name :: "string \<Rightarrow> bool" where
  "is_class_name c = (c \<noteq> [] \<and> list_all (\<lambda>x. \<not> is_space x) c)"

text \<open>Every widget of the page has a single class name for its \<^verbatim>\<open>expandedClass\<close>.\<close>

definition class_names_ok :: "page \<Rightarrow> bool" where
  "class_names_ok page =
     list_all (\<lambda>e. case el_widget e of None \<Rightarrow> True
                   | Some w \<Rightarrow> is_class_name (expandedClass w)) page"

text \<open>The \<^verbatim>\<open>class\<close> attribute of an element.\<close>

definition class_at :: "page \<Rightarrow> nat \<Rightarrow> string option" where
  "class_at page k = map_option el_class (get_el page k)"



section \<open>Example pages\<close>

definition markup ::
  "nat option \<Rightarrow> string \<Rightarrow> (string \<times> string) list \<Rightarrow> bool \<Rightarrow> int \<Rightarrow> element" where
  "markup p cls as acc h =
     \<lparr>el_parent = p, el_class = cls, el_attrs = as, el_data_accordion = acc,
      el_display = True, el_height = h, el_slides = [], el_click = [], el_widget = None\<rparr>"

text \<open>
  An accordion group (element 0) with two expandables as its children: A (element 1,
  trigger 2, content 3) without the expanded class, and B (element 4, trigger 5, content
  6) with it.
\<close>

definition accordion_markup :: page where
  "accordion_markup =
     [markup None ''expandable-group'' [] True 0,
      markup (Some 0) ''expandable'' [] False 0,
      markup (Some 1) ''expandable_target'' [] False 0,
      markup (Some 1) ''expandable_content'' [(''id'', ''a'')] False 100,
      markup (Some 0) ''expandable expandable__expanded'' [] False 0,
      markup (Some 4) ''expandable_target'' [] False 0,
      markup (Some 4) ''expandable_content'' [(''id'', ''b'')] False 300]"

text \<open>
  An accordion group (element 0) whose two expandables sit in a wrapper each (elements 1
  and 5, list items say): A (element 2, trigger 3, content 4) without the expanded class,
  and B (element 6, trigger 7, content 8) with it.
\<close>

definition wrapped_markup :: page where
  "wrapped_markup =
     [markup None ''expandable-group'' [] True 0,
      markup (Some 0) ''item'' [] False 0,
      markup (Some 1) ''expandable'' [] False 0,
      markup (Some 2) ''expandable_target'' [] False 0,
      markup (Some 2) ''expandable_content'' [(''id'', ''a'')] False 100,
      markup (Some 0) ''item'' [] False 0,
      markup (Some 5) ''expandable expandable__expanded'' [] False 0,
      markup (Some 6) ''expandable_target'' [] False 0,
      markup (Some 6) ''expandable_content'' [(''id'', ''b'')] False 300]"

text \<open>A single expandable (element 0, trigger 1, content 2) outside of any group.\<close>

definition single_markup :: page where
  "single_markup =
     [markup None ''expandable'' [] False 0,
      markup (Some 0) ''expandable_target'' [] False 0,
      markup (Some 0) ''expandable_content'' [(''id'', ''c'')] False 100]"

definition no_options :: options where
  "no_options = \<lparr>o_isInAccordion = None, o_expandedClass = None, o_throttleDuration = None\<rparr>"

text \<open>
  \<^verbatim>\<open>$( sel ).expandable( options )\<close>: \<^verbatim>\<open>create\<close> on each element of the set in turn; a
  throw ends the loop.
\<close>

fun expandable :: "options \<Rightarrow> nat list \<Rightarrow> page \<Rightarrow> outcome" where
  "expandable opts [] page = Inr page"
| "expandable opts (i # rest) page =
     (case create opts i page of
        Inl e \<Rightarrow> Inl e
      | Inr page' \<Rightarrow> expandable opts rest page')"

text \<open>The page in an outcome, whether the call returned or threw.\<close>

definition page_of :: "outcome \<Rightarrow> page" where
  "page_of r = (case r of Inl (e, page) \<Rightarrow> page | Inr page \<Rightarrow> page)"

text \<open>
  The same pages after \<^verbatim>\<open>.expandable()\<close> on their expandables, written out: a container
  carries its widget and the handler bound by \<^verbatim>\<open>initEvents\<close>, the trigger and the
  content carry the attributes written by \<^verbatim>\<open>initUI\<close>, and the slide of the first render
  is recorded on the content.
\<close>

definition default_widget :: "bool \<Rightarrow> bool \<Rightarrow> nat \<Rightarrow> nat \<Rightarrow> widget" where
  "default_widget acc ex c t =
     \<lparr>isInAccordion = acc, expandedClass = ''expandable__expanded'', throttleDuration = 450,
      isExpanded = ex, jq_content = Some c, jq_target = Some t\<rparr>"

definition initialised :: "widget \<Rightarrow> element \<Rightarrow> element" where
  "initialised w e = e\<lparr>el_click := [throttle (throttleDuration w)], el_widget := Some w\<rparr>"

definition rendered :: "slide \<Rightarrow> element \<Rightarrow> element" where
  "rendered dir e = e\<lparr>el_slides := [(dir, Some 0)]\<rparr>"

definition single_page :: page where
  "single_page =
     [initialised (default_widget False False 2 1) (markup None ''expandable'' [] False 0),
      markup (Some 0) ''expandable_target''
        [(''aria-controls'', ''c''), (''aria-pressed'', ''false'')] False 0,
      rendered SlideUp (markup (Some 0) ''expandable_content''
        [(''id'', ''c''), (''aria-expanded'', ''false'')] False 100)]"

definition accordion_page :: page where
  "accordion_page =
     [markup None ''expandable-group'' [] True 0,
      initialised (default_widget True False 3 2) (markup (Some 0) ''expandable'' [] False 0),
      markup (Some 1) ''expandable_target''
        [(''aria-controls'', ''a''), (''aria-pressed'', ''false'')] False 0,
      rendered SlideUp (markup (Some 1) ''expandable_content''
        [(''id'', ''a''), (''aria-expanded'', ''false'')] False 100),
      initialised (default_widget True True 6 5)
        (markup (Some 0) ''expandable expandable__expanded'' [] False 0),
      markup (Some 4) ''expandable_target''
        [(''aria-controls'', ''b''), (''aria-pressed'', ''true'')] False 0,
      rendered SlideDown (markup (Some 4) ''expandable_content''
        [(''id'', ''b''), (''aria-expanded'', ''true'')] False 300)]"

text \<open>
  The accordion page when \<^verbatim>\<open>.expandable()\<close> was called on A only: B has the class
  \<^verbatim>\<open>expandable\<close> and no widget.
\<close>

definition partial_page :: page where
  "partial_page =
     [markup None ''expandable-group'' [] True 0,
      initialised (default_widget True False 3 2) (markup (Some 0) ''expandable'' [] False 0),
      markup (Some 1) ''expandable_target''
        [(''aria-controls'', ''a''), (''aria-pressed'', ''false'')] False 0,
      rendered SlideUp (markup (Some 1) ''expandable_content''
        [(''id'', ''a''), (''aria-expanded'', ''false'')] False 100),
      markup (Some 0) ''expandable expandable__expanded'' [] False 0,
      markup (Some 4) ''expandable_target'' [] False 0,
      markup (Some 4) ''expandable_content'' [(''id'', ''b'')] False 300]"

definition wrapped_page :: page where
  "wrapped_page =
     [markup None ''expandable-group'' [] True 0,
      markup (Some 0) ''item'' [] False 0,
      initialised (default_widget True False 4 3) (markup (Some 1) ''expandable'' [] False 0),
      markup (Some 2) ''expandable_target''
        [(''aria-controls'', ''a''), (''aria-pressed'', ''false'')] False 0,
      rendered SlideUp (markup (Some 2) ''expandable_content''
        [(''id'', ''a''), (''aria-expanded'', ''false'')] False 100),
      markup (Some 0) ''item'' [] False 0,
      initialised (default_widget True True 8 7)
        (markup (Some 5) ''expandable expandable__expanded'' [] False 0),
      markup (Some 6) ''expandable_target''
        [(''aria-controls'', ''b''), (''aria-pressed'', ''true'')] False 0,
      rendered SlideDown (markup (Some 6) ''expandable_content''
        [(''id'', ''b''), (''aria-expanded'', ''true'')] False 300)]"



text \<open>Options in which the caller sets all three keys.\<close>

definition caller_options :: options where
  "caller_options =
     \<lparr>o_isInAccordion = Some True, o_expandedClass = Some ''open'', o_throttleDuration = Some 200\<rparr>"

text \<open>
  Options with the empty string for \<^verbatim>\<open>expandedClass\<close>, and the single expandable
  after \<^verbatim>\<open>.expandable( { expandedClass: '' } )\<close>.
\<close>

definition empty_class_options :: options where
  "empty_class_options =
     \<lparr>o_isInAccordion = None, o_expandedClass = Some [], o_throttleDuration = None\<rparr>"

definition empty_class_page :: page where
  "empty_class_page = page_of (create empty_class_options 0 single_markup)"

section \<open>Properties of the duration heuristics\<close>

lemma constrainValue_clamp_spec:
  "min_v \<le> max_v \<Longrightarrow> constrainValue min_v max_v v = clamp_spec min_v max_v v"
  by (simp add: constrainValue_def clamp_spec_def)

lemma constrainValue_bounds:
  "min_v \<le> max_v \<Longrightarrow>
     min_v \<le> constrainValue min_v max_v v \<and> constrainValue min_v max_v v \<le> max_v"
  by (simp add: constrainValue_def)

text \<open>
  Claim C1. For every height at least 0, \<^const>\<open>calculateExpandDuration\<close> returns the
  clamp of four times the height to the bounds 450 and 900: it equals
  \<^const>\<open>constrainValue\<close> at 450, 900 and \<open>height * 4\<close>, which is the specification's
  clamp there, and the result lies between 450 and 900.
\<close>

theorem calculateExpandDuration_clamp:
  assumes "0 \<le> height"
  shows "calculateExpandDuration height = constrainValue 450 900 (height * 4)
       \<and> calculateExpandDuration height = clamp_spec 450 900 (height * 4)
       \<and> 450 \<le> calculateExpandDuration height
       \<and> calculateExpandDuration height \<le> 900"
proof -
  have le: "(450::int) \<le> 900" by simp
  show ?thesis
    unfolding calculateExpandDuration_def
    using constrainValue_clamp_spec [OF le] constrainValue_bounds [OF le] by simp
qed

theorem calculateExpandDuration_clamp_witness:
  "(0::int) \<le> 150
   \<and> calculateExpandDuration 150 = constrainValue 450 900 (150 * 4)
   \<and> calculateExpandDuration 150 = 600
   \<and> calculateExpandDuration 100 = 450
   \<and> calculateExpandDuration 1000 = 900"
proof -
  have h: "(0::int) \<le> 150" by simp
  have "calculateExpandDuration 150 = constrainValue 450 900 (150 * 4)"
    using calculateExpandDuration_clamp [OF h] by simp
  moreover have "constrainValue 450 900 (150 * 4) = 600"
    by (simp add: constrainValue_def)
  moreover have "calculateExpandDuration 100 = 450" "calculateExpandDuration 1000 = 900"
    by (simp_all add: calculateExpandDuration_def constrainValue_def)
  ultimately show ?thesis by simp
qed

text \<open>
  Claim C2. For every height at least 0, \<^const>\<open>calculateCollapseDuration\<close> returns the
  clamp of twice the height to the bounds 350 and 900: it equals
  \<^const>\<open>constrainValue\<close> at 350, 900 and \<open>height * 2\<close>, which is the specification's
  clamp there, and the result lies between 350 and 900.
\<close>

theorem calculateCollapseDuration_clamp:
  assumes "0 \<le> height"
  shows "calculateCollapseDuration height = constrainValue 350 900 (height * 2)
       \<and> calculateCollapseDuration height = clamp_spec 350 900 (height * 2)
       \<and> 350 \<le> calculateCollapseDuration height
       \<and> calculateCollapseDuration height \<le> 900"
proof -
  have le: "(350::int) \<le> 900" by simp
  show ?thesis
    unfolding calculateCollapseDuration_def
    using constrainValue_clamp_spec [OF le] constrainValue_bounds [OF le] by simp
qed

theorem calculateCollapseDuration_clamp_witness:
  "(0::int) \<le> 200
   \<and> calculateCollapseDuration 200 = constrainValue 350 900 (200 * 2)
   \<and> calculateCollapseDuration 200 = 400
   \<and> calculateCollapseDuration 100 = 350
   \<and> calculateCollapseDuration 1000 = 900"
proof -
  have h: "(0::int) \<le> 200" by simp
  have "calculateCollapseDuration 200 = constrainValue 350 900 (200 * 2)"
    using calculateCollapseDuration_clamp [OF h] by simp
  moreover have "constrainValue 350 900 (200 * 2) = 400"
    by (simp add: constrainValue_def)
  moreover have "calculateCollapseDuration 100 = 350" "calculateCollapseDuration 1000 = 900"
    by (simp_all add: calculateCollapseDuration_def constrainValue_def)
  ultimately show ?thesis by simp
qed

text \<open>
  Claim C3. For all integers \<open>min\<close>, \<open>max\<close> and \<open>v\<close> with \<open>min \<le> max\<close>,
  \<^const>\<open>constrainValue\<close> returns \<open>min\<close> when \<open>v < min\<close>, \<open>max\<close> when \<open>v > max\<close>, and
  \<open>v\<close> unchanged when \<open>min \<le> v \<le> max\<close>.
\<close>

theorem constrainValue_cases:
  assumes "min_v \<le> max_v"
  shows "(v < min_v \<longrightarrow> constrainValue min_v max_v v = min_v)
       \<and> (v > max_v \<longrightarrow> constrainValue min_v max_v v = max_v)
       \<and> (min_v \<le> v \<and> v \<le> max_v \<longrightarrow> constrainValue min_v max_v v = v)"
  using assms by (simp add: constrainValue_def)

theorem constrainValue_cases_witness:
  "constrainValue 450 900 100 = 450
   \<and> constrainValue 450 900 1200 = 900
   \<and> constrainValue 450 900 600 = 600"
proof -
  have le: "(450::int) \<le> 900" by simp
  have "constrainValue 450 900 100 = 450"
    using constrainValue_cases [OF le, of 100] by simp
  moreover have "constrainValue 450 900 1200 = 900"
    using constrainValue_cases [OF le, of 1200] by simp
  moreover have "constrainValue 450 900 600 = 600"
    using constrainValue_cases [OF le, of 600] by simp
  ultimately show ?thesis by simp
qed

text \<open>
  Claim C9. Outside the precondition \<open>min \<le> max\<close> the upper bound is checked first:
  whenever \<open>min > max\<close> and \<open>duration > max\<close>, \<^const>\<open>constrainValue\<close> returns \<open>max\<close>,
  a value below \<open>min\<close>, so the result is not at least \<open>min\<close> there.
\<close>

theorem constrainValue_upper_bound_first:
  assumes "min_v > max_v" and "duration > max_v"
  shows "constrainValue min_v max_v duration = max_v
       \<and> constrainValue min_v max_v duration < min_v
       \<and> \<not> min_v \<le> constrainValue min_v max_v duration"
  using assms by (simp add: constrainValue_def)

theorem constrainValue_upper_bound_first_witness:
  "(900::int) > 450 \<and> (600::int) > 450
   \<and> constrainValue 900 450 600 = 450 \<and> constrainValue 900 450 600 < 900"
proof -
  have a: "(900::int) > 450" and b: "(600::int) > 450" by simp_all
  show ?thesis using a b constrainValue_upper_bound_first [OF a b] by simp
qed

section \<open>The class attribute: names and tokens\<close>

lemma space_is_space [simp]: "is_space (CHR '' '')"
  by (simp add: is_space_def)

lemma split_ws_append_space:
  "is_space c \<Longrightarrow> split_ws cur (xs @ c # ys) = split_ws cur xs @ split_ws [] ys"
  by (induction xs arbitrary: cur) auto

lemma split_ws_run:
  "\<forall>x \<in> set t. \<not> is_space x \<Longrightarrow> cur @ t \<noteq> [] \<Longrightarrow> split_ws cur t = [cur @ t]"
  by (induction t arbitrary: cur) auto

lemma split_ws_tokens:
  "t \<in> set (split_ws cur s) \<Longrightarrow> \<forall>x \<in> set cur. \<not> is_space x \<Longrightarrow>
   t \<noteq> [] \<and> (\<forall>x \<in> set t. \<not> is_space x)"
proof (induction s arbitrary: cur)
  case Nil
  then show ?case by (simp split: if_splits)
next
  case (Cons c s)
  show ?case
  proof (cases "is_space c")
    case True
    with Cons.prems have "t = cur \<and> cur \<noteq> [] \<or> t \<in> set (split_ws [] s)"
      by (simp split: if_splits)
    then show ?thesis
    proof
      assume "t = cur \<and> cur \<noteq> []"
      with Cons.prems(2) show ?thesis by simp
    next
      assume "t \<in> set (split_ws [] s)"
      from Cons.IH [OF this] show ?thesis by simp
    qed
  next
    case False
    with Cons.prems have "t \<in> set (split_ws (cur @ [c]) s)" by simp
    moreover have "\<forall>x \<in> set (cur @ [c]). \<not> is_space x"
      using False Cons.prems(2) by simp
    ultimately show ?thesis by (rule Cons.IH)
  qed
qed

lemma is_class_name_iff: "is_class_name c \<longleftrightarrow> c \<noteq> [] \<and> (\<forall>x \<in> set c. \<not> is_space x)"
  by (simp add: is_class_name_def list_all_iff)

lemma classesToArray_names: "t \<in> set (classesToArray s) \<Longrightarrow> is_class_name t"
  using split_ws_tokens [of t "[]" s] by (simp add: classesToArray_def is_class_name_iff)

lemma classesToArray_name: "is_class_name c \<Longrightarrow> classesToArray c = [c]"
  using split_ws_run [of c "[]"] by (simp add: classesToArray_def is_class_name_iff)

lemma classesToArray_append_space:
  "is_space c \<Longrightarrow> classesToArray (xs @ c # ys) = classesToArray xs @ classesToArray ys"
  by (simp add: classesToArray_def split_ws_append_space)

lemma classesToArray_Nil [simp]: "classesToArray [] = []"
  by (simp add: classesToArray_def)

lemma classesToArray_join_sp:
  "\<forall>t \<in> set ts. is_class_name t \<Longrightarrow> classesToArray (join_sp ts) = ts"
proof (induction ts rule: join_sp.induct)
  case 1
  then show ?case by simp
next
  case (2 t)
  then show ?case by (simp add: classesToArray_name)
next
  case (3 t u ts)
  then show ?case
    by (simp add: classesToArray_append_space classesToArray_name)
qed

lemma classesToArray_padded:
  "classesToArray (CHR '' '' # s @ [CHR '' '']) = classesToArray s"
proof -
  have "classesToArray (CHR '' '' # s @ [CHR '' '']) = classesToArray ([] @ CHR '' '' # (s @ [CHR '' '']))"
    by simp
  also have "\<dots> = classesToArray (s @ CHR '' '' # [])"
    by (simp only: classesToArray_append_space [OF space_is_space]) simp
  also have "\<dots> = classesToArray s"
    by (simp only: classesToArray_append_space [OF space_is_space]) simp
  finally show ?thesis .
qed

lemma sublist_padded_tokens:
  assumes "sublist (CHR '' '' # sel @ [CHR '' '']) w"
  shows "set (classesToArray sel) \<subseteq> set (classesToArray w)"
proof -
  from assms obtain ps ss where w: "w = ps @ (CHR '' '' # sel @ [CHR '' '']) @ ss"
    by (auto simp: sublist_def)
  have "classesToArray w = classesToArray (ps @ CHR '' '' # (sel @ CHR '' '' # ss))"
    by (simp add: w)
  also have "\<dots> = classesToArray ps @ classesToArray sel @ classesToArray ss"
    by (simp only: classesToArray_append_space [OF space_is_space])
  finally show ?thesis by auto
qed

lemma sublist_join_sp:
  "t \<in> set ts \<Longrightarrow> sublist (CHR '' '' # t @ [CHR '' '']) (CHR '' '' # join_sp ts @ [CHR '' ''])"
proof (induction ts rule: join_sp.induct)
  case 1
  then show ?case by simp
next
  case (2 u)
  then show ?case by simp
next
  case (3 u v ts)
  show ?case
  proof (cases "t = u")
    case True
    have "prefix (CHR '' '' # t @ [CHR '' ''])
        ((CHR '' '' # t @ [CHR '' '']) @ join_sp (v # ts) @ [CHR '' ''])"
      by (rule prefixI) simp
    then show ?thesis using True by (auto intro: prefix_imp_sublist)
  next
    case False
    with 3 have "sublist (CHR '' '' # t @ [CHR '' '']) (CHR '' '' # join_sp (v # ts) @ [CHR '' ''])"
      by simp
    moreover have "suffix (CHR '' '' # join_sp (v # ts) @ [CHR '' ''])
        (CHR '' '' # join_sp (u # v # ts) @ [CHR '' ''])"
      by (rule suffixI [of _ "CHR '' '' # u"]) simp
    ultimately show ?thesis
      by (meson sublist_order.order.trans suffix_imp_sublist)
  qed
qed

text \<open>
  For a single class name, the search of \<^verbatim>\<open>hasClass\<close> in the padded class string is
  membership among the class names of the element.
\<close>

lemma padded_name_iff:
  assumes "is_class_name c"
  shows "sublist (CHR '' '' # c @ [CHR '' '']) (CHR '' '' # stripAndCollapse cls @ [CHR '' ''])
     \<longleftrightarrow> c \<in> set (classesToArray cls)"
proof
  assume "sublist (CHR '' '' # c @ [CHR '' '']) (CHR '' '' # stripAndCollapse cls @ [CHR '' ''])"
  from sublist_padded_tokens [OF this]
  have "c \<in> set (classesToArray (stripAndCollapse cls))"
    by (simp add: classesToArray_name [OF assms] classesToArray_padded)
  then show "c \<in> set (classesToArray cls)"
    by (simp add: stripAndCollapse_def classesToArray_join_sp classesToArray_names)
next
  assume "c \<in> set (classesToArray cls)"
  then show "sublist (CHR '' '' # c @ [CHR '' '']) (CHR '' '' # stripAndCollapse cls @ [CHR '' ''])"
    by (simp add: stripAndCollapse_def sublist_join_sp)
qed

text \<open>The class names after the loops of \<^verbatim>\<open>addClass\<close> and \<^verbatim>\<open>removeClass\<close>.\<close>

lemma fold_add_class_append: "\<exists>m. fold add_class cs ts = ts @ m \<and> set m \<subseteq> set cs"
proof (induction cs arbitrary: ts)
  case Nil
  then show ?case by simp
next
  case (Cons c cs)
  from Cons [of "add_class c ts"] obtain m where
    m: "fold add_class cs (add_class c ts) = add_class c ts @ m" "set m \<subseteq> set cs" by blast
  show ?case
  proof (cases "c \<in> set ts")
    case True
    then have "add_class c ts = ts" by (simp add: add_class_def)
    with m have "fold add_class (c # cs) ts = ts @ m \<and> set m \<subseteq> set (c # cs)"
      by auto
    then show ?thesis by blast
  next
    case False
    then have "add_class c ts = ts @ [c]" by (simp add: add_class_def)
    with m have "fold add_class (c # cs) ts = ts @ (c # m) \<and> set (c # m) \<subseteq> set (c # cs)"
      by auto
    then show ?thesis by blast
  qed
qed

lemma set_fold_add_class: "set (fold add_class cs ts) = set ts \<union> set cs"
  by (induction cs arbitrary: ts) (auto simp: add_class_def)

lemma fold_add_class_present: "set cs \<subseteq> set ts \<Longrightarrow> fold add_class cs ts = ts"
  by (induction cs arbitrary: ts) (auto simp: add_class_def)

lemma set_fold_removeAll: "set (fold removeAll cs ts) = set ts - set cs"
  by (induction cs arbitrary: ts) auto

lemma join_sp_append:
  "ts \<noteq> [] \<Longrightarrow> m \<noteq> [] \<Longrightarrow> join_sp (ts @ m) = join_sp ts @ CHR '' '' # join_sp m"
proof (induction ts rule: join_sp.induct)
  case 1
  then show ?case by simp
next
  case (2 t)
  then show ?case by (cases m) simp_all
next
  case (3 t u ts)
  then show ?case by simp
qed

subsection \<open>Adding, removing and testing a class\<close>

text \<open>The three class calls on the class string of one element.\<close>

lemma class_has_name:
  "is_class_name c \<Longrightarrow> class_has c cls \<longleftrightarrow> c \<in> set (classesToArray cls)"
  unfolding class_has_def by (rule padded_name_iff)

lemma class_added_tokens:
  "classesToArray v \<noteq> [] \<Longrightarrow>
   classesToArray (class_added v cls) = fold add_class (classesToArray v) (classesToArray cls)"
  by (auto simp: class_added_def set_fold_add_class intro!: classesToArray_join_sp
      dest: classesToArray_names)

lemma class_removed_tokens:
  "classesToArray v \<noteq> [] \<Longrightarrow>
   classesToArray (class_removed v cls) = fold removeAll (classesToArray v) (classesToArray cls)"
  by (auto simp: class_removed_def set_fold_removeAll intro!: classesToArray_join_sp
      dest: classesToArray_names)

lemma class_has_added_name: "is_class_name c \<Longrightarrow> class_has c (class_added c cls)"
  by (simp add: class_has_name class_added_tokens classesToArray_name add_class_def)

lemma class_has_removed_name: "is_class_name c \<Longrightarrow> \<not> class_has c (class_removed c cls)"
  by (simp add: class_has_name class_removed_tokens classesToArray_name)

lemma class_added_idem: "class_added v (class_added v cls) = class_added v cls"
proof (cases "classesToArray v = []")
  case True
  then show ?thesis by (simp add: class_added_def)
next
  case False
  have p: "fold add_class (classesToArray v) (classesToArray (class_added v cls))
      = classesToArray (class_added v cls)"
    by (rule fold_add_class_present) (simp add: class_added_tokens [OF False] set_fold_add_class)
  have "class_added v (class_added v cls)
      = join_sp (fold add_class (classesToArray v) (classesToArray (class_added v cls)))"
    using False by (simp add: class_added_def)
  also have "\<dots> = join_sp (classesToArray (class_added v cls))"
    by (simp only: p)
  also have "\<dots> = join_sp (fold add_class (classesToArray v) (classesToArray cls))"
    by (simp only: class_added_tokens [OF False])
  also have "\<dots> = class_added v cls"
    using False by (simp add: class_added_def)
  finally show ?thesis .
qed

lemma class_has_Nil_tokens:
  assumes "class_has sel cls" and "classesToArray cls = []"
  shows "classesToArray sel = []"
proof -
  from assms have "sublist (CHR '' '' # sel @ [CHR '' '']) [CHR '' '', CHR '' '']"
    by (simp add: class_has_def stripAndCollapse_def)
  from sublist_padded_tokens [OF this] show ?thesis
    by (simp add: classesToArray_def)
qed

lemma class_has_added: "class_has sel cls \<Longrightarrow> class_has sel (class_added sel cls)"
proof (cases "classesToArray sel = []")
  case True
  then show "class_has sel cls \<Longrightarrow> ?thesis" by (simp add: class_added_def)
next
  case False
  assume h: "class_has sel cls"
  let ?ts = "classesToArray cls"
  from h False have ne: "?ts \<noteq> []" using class_has_Nil_tokens by blast
  from fold_add_class_append obtain m where
    m: "fold add_class (classesToArray sel) ?ts = ?ts @ m" "set m \<subseteq> set (classesToArray sel)"
    by blast
  have names: "\<forall>t \<in> set (?ts @ m). is_class_name t"
    using m(2) by (auto dest: classesToArray_names)
  have sc: "stripAndCollapse (class_added sel cls) = join_sp (?ts @ m)"
    using False m(1) names by (simp add: stripAndCollapse_def class_added_def classesToArray_join_sp)
  show ?thesis
  proof (cases "m = []")
    case True
    with h sc show ?thesis by (simp add: class_has_def stripAndCollapse_def)
  next
    case False
    have "prefix (CHR '' '' # join_sp ?ts @ [CHR '' ''])
        (CHR '' '' # join_sp (?ts @ m) @ [CHR '' ''])"
      by (rule prefixI [of _ _ "join_sp m @ [CHR '' '']"]) (simp add: join_sp_append [OF ne False])
    moreover from h have "sublist (CHR '' '' # sel @ [CHR '' ''])
        (CHR '' '' # join_sp ?ts @ [CHR '' ''])"
      by (simp add: class_has_def stripAndCollapse_def)
    ultimately have "sublist (CHR '' '' # sel @ [CHR '' ''])
        (CHR '' '' # join_sp (?ts @ m) @ [CHR '' ''])"
      by (meson sublist_order.order.trans prefix_imp_sublist)
    then show ?thesis by (simp add: class_has_def sc)
  qed
qed

lemma class_has_removed: "classesToArray sel \<noteq> [] \<Longrightarrow> \<not> class_has sel (class_removed sel cls)"
proof
  assume ne: "classesToArray sel \<noteq> []"
  assume "class_has sel (class_removed sel cls)"
  then have "set (classesToArray sel)
      \<subseteq> set (classesToArray (CHR '' '' # stripAndCollapse (class_removed sel cls) @ [CHR '' '']))"
    unfolding class_has_def by (rule sublist_padded_tokens)
  also have "\<dots> = set (classesToArray (class_removed sel cls))"
    by (simp add: classesToArray_padded stripAndCollapse_def classesToArray_join_sp
        classesToArray_names)
  also have "\<dots> = set (classesToArray cls) - set (classesToArray sel)"
    by (simp add: class_removed_tokens [OF ne] set_fold_removeAll)
  finally show False using ne by (cases "classesToArray sel") auto
qed

lemma class_removed_Nil: "classesToArray sel = [] \<Longrightarrow> class_removed sel cls = cls"
  by (simp add: class_removed_def)

lemma class_removed_idem_has:
  "class_has sel (class_removed sel (class_removed sel cls)) = class_has sel (class_removed sel cls)"
  by (cases "classesToArray sel = []") (simp_all add: class_removed_Nil class_has_removed)

lemma default_class_name: "is_class_name ''expandable__expanded''"
  by code_simp

section \<open>The page under the calls of the widget\<close>

lemma length_update_el [simp]: "length (update_el i f page) = length page"
  by (simp add: update_el_def)

lemma get_el_update_el:
  "get_el (update_el i f page) k = (if k = i then map_option f (get_el page i) else get_el page k)"
  by (simp add: get_el_def update_el_def)

lemma get_el_Some_iff: "get_el page i = Some e \<longleftrightarrow> i < length page \<and> e = page ! i"
  by (auto simp: get_el_def)

lemma get_el_None_iff: "get_el page i = None \<longleftrightarrow> length page \<le> i"
  by (auto simp: get_el_def)

lemma length_prims [simp]:
  "length (attr_set jq n v page) = length page"
  "length (addClass i c page) = length page"
  "length (removeClass i c page) = length page"
  "length (jq_slide dir jq d page) = length page"
  "length (set_isExpanded i b page) = length page"
  "length (update_widget i g page) = length page"
  by (simp_all add: attr_set_def addClass_def removeClass_def jq_slide_def set_isExpanded_def
      update_widget_def split: option.splits)

lemma widget_at_prims [simp]:
  "widget_at (attr_set jq n v page) k = widget_at page k"
  "widget_at (addClass i c page) k = widget_at page k"
  "widget_at (removeClass i c page) k = widget_at page k"
  "widget_at (jq_slide dir jq d page) k = widget_at page k"
  by (auto simp: widget_at_def attr_set_def addClass_def removeClass_def jq_slide_def
      get_el_update_el split: option.splits)

lemma widget_at_update_widget [simp]:
  "widget_at (update_widget i g page) k =
     (if k = i then map_option g (widget_at page i) else widget_at page k)"
  by (auto simp: widget_at_def update_widget_def get_el_update_el split: option.splits)

lemma widget_at_set_isExpanded [simp]:
  "widget_at (set_isExpanded i b page) k =
     (if k = i then map_option (\<lambda>w. w\<lparr>isExpanded := b\<rparr>) (widget_at page i) else widget_at page k)"
  by (auto simp: widget_at_def set_isExpanded_def get_el_update_el split: option.splits)

text \<open>The class attribute of an element under the jQuery calls.\<close>

lemma class_at_prims [simp]:
  "class_at (attr_set jq n v page) k = class_at page k"
  "class_at (jq_slide dir jq d page) k = class_at page k"
  "class_at (set_isExpanded i b page) k = class_at page k"
  "class_at (update_widget i g page) k = class_at page k"
  by (auto simp: class_at_def attr_set_def jq_slide_def set_isExpanded_def update_widget_def
      get_el_update_el option.map_comp comp_def split: option.splits)

lemma class_at_addClass [simp]:
  "class_at (addClass i v page) k =
     (if k = i then map_option (class_added v) (class_at page i) else class_at page k)"
  by (cases "get_el page i")
     (auto simp: class_at_def addClass_def get_el_update_el option.map_comp comp_def
       split: option.splits)

lemma class_at_removeClass [simp]:
  "class_at (removeClass i v page) k =
     (if k = i then map_option (class_removed v) (class_at page i) else class_at page k)"
  by (cases "get_el page i")
     (auto simp: class_at_def removeClass_def get_el_update_el option.map_comp comp_def
       split: option.splits)

lemma hasClass_class_at:
  "hasClass k c page = (case class_at page k of None \<Rightarrow> False | Some cls \<Rightarrow> class_has c cls)"
  by (simp add: hasClass_def class_at_def split: option.splits)

lemma matches_class_at:
  "matches k c page =
     (case class_at page k of None \<Rightarrow> False | Some cls \<Rightarrow> c \<in> set (classesToArray cls))"
  by (simp add: matches_def class_at_def split: option.splits)

lemma hasClass_cong: "class_at page' k = class_at page k \<Longrightarrow> hasClass k c page' = hasClass k c page"
  by (simp add: hasClass_class_at)

lemma matches_cong: "class_at page' k = class_at page k \<Longrightarrow> matches k c page' = matches k c page"
  by (simp add: matches_class_at)

lemma class_at_Some_iff: "(\<exists>cls. class_at page k = Some cls) \<longleftrightarrow> k < length page"
  by (simp add: class_at_def get_el_def)

lemma hasClass_prims [simp]:
  "hasClass k c (attr_set jq n v page) = hasClass k c page"
  "hasClass k c (jq_slide dir jq d page) = hasClass k c page"
  "hasClass k c (set_isExpanded i b page) = hasClass k c page"
  "hasClass k c (update_widget i g page) = hasClass k c page"
  by (simp_all add: hasClass_class_at)

text \<open>The other attributes under the jQuery calls.\<close>

lemma present_prims [simp]:
  "present jq (attr_set jq' n v page) = present jq page"
  "present jq (addClass i c page) = present jq page"
  "present jq (removeClass i c page) = present jq page"
  "present jq (jq_slide dir jq' d page) = present jq page"
  "present jq (set_isExpanded i b page) = present jq page"
  "present jq (update_widget i g page) = present jq page"
  by (simp_all add: present_def split: option.splits)

lemma attr_get_prims [simp]:
  "attr_get jq n (addClass i c page) = attr_get jq n page"
  "attr_get jq n (removeClass i c page) = attr_get jq n page"
  "attr_get jq n (jq_slide dir jq' d page) = attr_get jq n page"
  "attr_get jq n (set_isExpanded i b page) = attr_get jq n page"
  "attr_get jq n (update_widget i g page) = attr_get jq n page"
  by (auto simp: attr_get_def addClass_def removeClass_def jq_slide_def set_isExpanded_def
      update_widget_def get_el_update_el split: option.splits)

lemma attr_get_attr_set [simp]:
  "attr_get jq n (attr_set jq' n' (Some v) page) =
     (if jq = jq' \<and> n = n' \<and> present jq page then Some v else attr_get jq n page)"
  by (cases jq; cases jq')
     (auto simp: attr_get_def attr_set_def present_def get_el_update_el get_el_None_iff
       get_el_Some_iff update_conv' split: option.splits)

lemma parent_of_prims [simp]:
  "parent_of (attr_set jq n v page) k = parent_of page k"
  "parent_of (addClass i c page) k = parent_of page k"
  "parent_of (removeClass i c page) k = parent_of page k"
  "parent_of (jq_slide dir jq d page) k = parent_of page k"
  "parent_of (set_isExpanded i b page) k = parent_of page k"
  "parent_of (update_widget i g page) k = parent_of page k"
  by (auto simp: parent_of_def attr_set_def addClass_def removeClass_def jq_slide_def
      set_isExpanded_def update_widget_def get_el_update_el split: option.splits)

text \<open>What expand and collapse change, and what they leave as it is.\<close>

lemma expand_total: "widget_at page i = Some w \<Longrightarrow> \<exists>page'. expand d i page = Inr page'"
  by (simp add: expand_def Let_def)

lemma collapse_total: "widget_at page i = Some w \<Longrightarrow> \<exists>page'. collapse d i page = Inr page'"
  by (simp add: collapse_def Let_def)

lemma expand_Inr_widget: "expand d i page = Inr page' \<Longrightarrow> \<exists>w. widget_at page i = Some w"
  by (simp add: expand_def split: option.splits)

lemma collapse_Inr_widget: "collapse d i page = Inr page' \<Longrightarrow> \<exists>w. widget_at page i = Some w"
  by (simp add: collapse_def split: option.splits)

lemma widget_at_length: "widget_at page i = Some w \<Longrightarrow> i < length page"
  by (simp add: widget_at_def get_el_def split: if_splits)

lemma expand_widget_at:
  "expand d i page = Inr page' \<Longrightarrow>
   widget_at page' k =
     (if k = i then map_option (\<lambda>w. w\<lparr>isExpanded := True\<rparr>) (widget_at page i)
      else widget_at page k)"
  by (auto simp: expand_def Let_def split: option.splits)

lemma collapse_widget_at:
  "collapse d i page = Inr page' \<Longrightarrow>
   widget_at page' k =
     (if k = i then map_option (\<lambda>w. w\<lparr>isExpanded := False\<rparr>) (widget_at page i)
      else widget_at page k)"
  by (auto simp: collapse_def Let_def split: option.splits)

lemma expand_class_at:
  "expand d i page = Inr page' \<Longrightarrow> widget_at page i = Some w \<Longrightarrow>
   class_at page' k =
     (if k = i then map_option (class_added (expandedClass w)) (class_at page i)
      else class_at page k)"
  by (auto simp: expand_def Let_def split: option.splits)

lemma collapse_class_at:
  "collapse d i page = Inr page' \<Longrightarrow> widget_at page i = Some w \<Longrightarrow>
   class_at page' k =
     (if k = i then map_option (class_removed (expandedClass w)) (class_at page i)
      else class_at page k)"
  by (auto simp: collapse_def Let_def split: option.splits)

lemma expand_attr_get:
  "expand d i page = Inr page' \<Longrightarrow> widget_at page i = Some w \<Longrightarrow>
   attr_get jq n page' =
     (if jq = jq_content w \<and> n = ''aria-expanded'' \<and> present jq page then Some ''true''
      else if jq = jq_target w \<and> n = ''aria-pressed'' \<and> present jq page then Some ''true''
      else attr_get jq n page)"
  by (auto simp: expand_def Let_def split: option.splits)

lemma collapse_attr_get:
  "collapse d i page = Inr page' \<Longrightarrow> widget_at page i = Some w \<Longrightarrow>
   attr_get jq n page' =
     (if jq = jq_content w \<and> n = ''aria-expanded'' \<and> present jq page then Some ''false''
      else if jq = jq_target w \<and> n = ''aria-pressed'' \<and> present jq page then Some ''false''
      else attr_get jq n page)"
  by (auto simp: collapse_def Let_def split: option.splits)

lemma expand_length: "expand d i page = Inr page' \<Longrightarrow> length page' = length page"
  by (auto simp: expand_def Let_def split: option.splits)

lemma collapse_length: "collapse d i page = Inr page' \<Longrightarrow> length page' = length page"
  by (auto simp: collapse_def Let_def split: option.splits)

lemma expand_parent_of: "expand d i page = Inr page' \<Longrightarrow> parent_of page' k = parent_of page k"
  by (auto simp: expand_def Let_def split: option.splits)

lemma collapse_parent_of: "collapse d i page = Inr page' \<Longrightarrow> parent_of page' k = parent_of page k"
  by (auto simp: collapse_def Let_def split: option.splits)

text \<open>The animation engine changes the style only.\<close>

lemma length_animate [simp]: "length (animate f page) = length page"
  by (simp add: animate_def)

lemma get_el_animate:
  "get_el (animate f page) k =
     map_option (\<lambda>e. e\<lparr>el_display := fst (f k), el_height := snd (f k)\<rparr>) (get_el page k)"
  by (simp add: get_el_def animate_def nth_enumerate_eq)

lemma widget_at_animate [simp]: "widget_at (animate f page) k = widget_at page k"
  by (simp add: widget_at_def get_el_animate split: option.splits)

lemma class_at_animate [simp]: "class_at (animate f page) k = class_at page k"
  by (simp add: class_at_def get_el_animate option.map_comp comp_def)

lemma attr_get_animate [simp]: "attr_get jq n (animate f page) = attr_get jq n page"
  by (simp add: attr_get_def get_el_animate split: option.splits)

lemma expanded_at_animate [simp]: "expanded_at (animate f page) k = expanded_at page k"
  by (simp add: expanded_at_def)

lemma marker_at_animate [simp]: "marker_at (animate f page) k = marker_at page k"
  by (simp add: marker_at_def hasClass_class_at split: option.splits)

text \<open>The marker and the invariant under expand, collapse and toggle.\<close>

lemma expand_expanded_at:
  "expand d i page = Inr page' \<Longrightarrow>
   expanded_at page' k = (if k = i then True else expanded_at page k)"
  by (frule expand_Inr_widget) (auto simp: expanded_at_def expand_widget_at)

lemma collapse_expanded_at:
  "collapse d i page = Inr page' \<Longrightarrow>
   expanded_at page' k = (if k = i then False else expanded_at page k)"
  by (frule collapse_Inr_widget) (auto simp: expanded_at_def collapse_widget_at)

lemma marker_at_class_at:
  "marker_at page k =
     (case widget_at page k of None \<Rightarrow> False
      | Some w \<Rightarrow> (case class_at page k of None \<Rightarrow> False
          | Some cls \<Rightarrow> class_has (expandedClass w) cls))"
  by (simp add: marker_at_def hasClass_class_at split: option.splits)

lemma expand_marker_at_other:
  "expand d i page = Inr page' \<Longrightarrow> k \<noteq> i \<Longrightarrow> marker_at page' k = marker_at page k"
  by (frule expand_Inr_widget)
     (auto simp: marker_at_class_at expand_widget_at expand_class_at split: option.splits)

lemma collapse_marker_at_other:
  "collapse d i page = Inr page' \<Longrightarrow> k \<noteq> i \<Longrightarrow> marker_at page' k = marker_at page k"
  by (frule collapse_Inr_widget)
     (auto simp: marker_at_class_at collapse_widget_at collapse_class_at split: option.splits)

lemma expand_marker_at_self:
  assumes "expand d i page = Inr page'" and "widget_at page i = Some w"
  shows "marker_at page' i =
     (case class_at page i of None \<Rightarrow> False
      | Some cls \<Rightarrow> class_has (expandedClass w) (class_added (expandedClass w) cls))"
  using assms
  by (auto simp: marker_at_class_at expand_widget_at expand_class_at split: option.splits)

lemma collapse_marker_at_self:
  assumes "collapse d i page = Inr page'" and "widget_at page i = Some w"
  shows "marker_at page' i =
     (case class_at page i of None \<Rightarrow> False
      | Some cls \<Rightarrow> class_has (expandedClass w) (class_removed (expandedClass w) cls))"
  using assms
  by (auto simp: marker_at_class_at collapse_widget_at collapse_class_at split: option.splits)

lemma class_at_widget: "widget_at page i = Some w \<Longrightarrow> \<exists>cls. class_at page i = Some cls"
  by (simp add: class_at_Some_iff widget_at_length)

lemma expand_marker_at_name:
  assumes "expand d i page = Inr page'" and "widget_at page i = Some w"
    and "is_class_name (expandedClass w)"
  shows "marker_at page' i"
  using expand_marker_at_self [OF assms(1,2)] class_at_widget [OF assms(2)]
  by (auto simp: class_has_added_name [OF assms(3)])

lemma collapse_marker_at_name:
  assumes "collapse d i page = Inr page'" and "widget_at page i = Some w"
    and "is_class_name (expandedClass w)"
  shows "\<not> marker_at page' i"
  using collapse_marker_at_self [OF assms(1,2)] class_at_widget [OF assms(2)]
  by (auto simp: class_has_removed_name [OF assms(3)])

lemma expand_consistent_other:
  "expand d i page = Inr page' \<Longrightarrow> k \<noteq> i \<Longrightarrow> consistent page' k = consistent page k"
  by (simp add: consistent_def expand_expanded_at expand_marker_at_other)

lemma collapse_consistent_other:
  "collapse d i page = Inr page' \<Longrightarrow> k \<noteq> i \<Longrightarrow> consistent page' k = consistent page k"
  by (simp add: consistent_def collapse_expanded_at collapse_marker_at_other)

lemma expand_consistent_name:
  "expand d i page = Inr page' \<Longrightarrow> widget_at page i = Some w \<Longrightarrow>
   is_class_name (expandedClass w) \<Longrightarrow> consistent page' i"
  by (simp add: consistent_def expand_expanded_at expand_marker_at_name)

lemma collapse_consistent_name:
  "collapse d i page = Inr page' \<Longrightarrow> widget_at page i = Some w \<Longrightarrow>
   is_class_name (expandedClass w) \<Longrightarrow> consistent page' i"
  by (simp add: consistent_def collapse_expanded_at collapse_marker_at_name)

lemma class_names_ok_iff:
  "class_names_ok page \<longleftrightarrow>
     (\<forall>k w. widget_at page k = Some w \<longrightarrow> is_class_name (expandedClass w))"
  by (auto simp: class_names_ok_def list_all_length widget_at_def get_el_def
      split: option.splits if_splits)

lemma collapse_class_names_ok:
  "collapse d i page = Inr page' \<Longrightarrow> class_names_ok page \<Longrightarrow> class_names_ok page'"
  by (auto simp: class_names_ok_iff collapse_widget_at split: if_splits)

lemma each_collapse_consistent:
  "each_collapse ss page = Inr page' \<Longrightarrow> class_names_ok page \<Longrightarrow>
   consistent page' k = (if k \<in> set ss then True else consistent page k)"
proof (induction ss arbitrary: page)
  case Nil
  then show ?case by simp
next
  case (Cons s ss)
  from Cons.prems obtain p1 where c: "collapse None s page = Inr p1"
    and r: "each_collapse ss p1 = Inr page'"
    by (auto split: sum.splits)
  from collapse_Inr_widget [OF c] obtain ws where ws: "widget_at page s = Some ws" by blast
  with Cons.prems(2) have n: "is_class_name (expandedClass ws)"
    by (simp add: class_names_ok_iff)
  have ok: "class_names_ok p1" by (rule collapse_class_names_ok [OF c Cons.prems(2)])
  show ?case
    using Cons.IH [OF r ok] collapse_consistent_other [OF c, of k]
      collapse_consistent_name [OF c ws n]
    by auto
qed

lemma each_collapse_widget_at:
  "each_collapse ss page = Inr page' \<Longrightarrow>
   widget_at page' k =
     (if k \<in> set ss then map_option (\<lambda>w. w\<lparr>isExpanded := False\<rparr>) (widget_at page k)
      else widget_at page k)"
proof (induction ss arbitrary: page)
  case Nil
  then show ?case by simp
next
  case (Cons s ss)
  from Cons.prems obtain p1 where c: "collapse None s page = Inr p1"
    and r: "each_collapse ss p1 = Inr page'"
    by (auto split: sum.splits)
  show ?case
    using Cons.IH [OF r] collapse_widget_at [OF c]
    by (auto simp: option.map_comp comp_def)
qed

lemma each_collapse_length: "each_collapse ss page = Inr page' \<Longrightarrow> length page' = length page"
proof (induction ss arbitrary: page)
  case Nil
  then show ?case by simp
next
  case (Cons s ss)
  from Cons.prems obtain p1 where c: "collapse None s page = Inr p1"
    and r: "each_collapse ss p1 = Inr page'"
    by (auto split: sum.splits)
  show ?case using Cons.IH [OF r] collapse_length [OF c] by simp
qed

lemma not_in_jq_siblings: "i \<notin> set (jq_siblings c i page)"
  by (simp add: jq_siblings_def split: option.splits)

lemma toggle_expanded:
  "widget_at page i = Some w \<Longrightarrow> isExpanded w \<Longrightarrow> toggle i page = collapse None i page"
  by (simp add: toggle_def)

lemma toggle_collapsed:
  assumes "widget_at page i = Some w" and "\<not> isExpanded w" and "toggle i page = Inr page'"
  obtains p0 where "widget_at p0 i = Some w" and "length p0 = length page"
    and "expand None i p0 = Inr page'"
    and "if isInAccordion w then each_collapse (jq_siblings ''expandable'' i page) page = Inr p0
         else p0 = page"
proof -
  from assms obtain p0 where
    s: "(if isInAccordion w then each_collapse (jq_siblings ''expandable'' i page) page
         else Inr page) = Inr p0"
    and e: "expand None i p0 = Inr page'"
    by (auto simp: toggle_def split: sum.splits)
  have "widget_at p0 i = Some w"
    using s assms(1) not_in_jq_siblings [of i "''expandable''" page]
    by (auto simp: each_collapse_widget_at split: if_splits)
  moreover have "length p0 = length page"
    using s by (auto simp: each_collapse_length split: if_splits)
  moreover have "if isInAccordion w
      then each_collapse (jq_siblings ''expandable'' i page) page = Inr p0 else p0 = page"
    using s by (auto split: if_splits)
  ultimately show ?thesis using e that by blast
qed

lemma toggle_consistent_self:
  assumes "toggle i page = Inr page'" and "widget_at page i = Some w"
    and "is_class_name (expandedClass w)"
  shows "consistent page' i"
proof (cases "isExpanded w")
  case True
  with assms show ?thesis
    by (simp add: toggle_expanded collapse_consistent_name)
next
  case False
  from toggle_collapsed [OF assms(2) False assms(1)] obtain p0 where
    "widget_at p0 i = Some w" "expand None i p0 = Inr page'" by blast
  then show ?thesis using assms(3) by (simp add: expand_consistent_name)
qed

lemma toggle_consistent:
  assumes "toggle i page = Inr page'" and "class_names_ok page" and "consistent page k"
  shows "consistent page' k"
proof -
  from assms(1) obtain w where w: "widget_at page i = Some w"
    by (auto simp: toggle_def split: option.splits)
  with assms(2) have n: "is_class_name (expandedClass w)" by (simp add: class_names_ok_iff)
  show ?thesis
  proof (cases "k = i")
    case True
    with toggle_consistent_self [OF assms(1) w n] show ?thesis by simp
  next
    case False
    show ?thesis
    proof (cases "isExpanded w")
      case True
      with assms w False show ?thesis
        by (simp add: toggle_expanded collapse_consistent_other)
    next
      case ne: False
      from toggle_collapsed [OF w ne assms(1)] obtain p0 where
        e: "expand None i p0 = Inr page'"
        and s: "if isInAccordion w
          then each_collapse (jq_siblings ''expandable'' i page) page = Inr p0 else p0 = page"
        by blast
      from s assms(2,3) have "consistent p0 k"
        by (auto simp: each_collapse_consistent split: if_splits)
      with e False show ?thesis by (simp add: expand_consistent_other)
    qed
  qed
qed

subsection \<open>The ARIA attributes and the observable state\<close>

lemma attr_get_not_present: "\<not> present jq page \<Longrightarrow> attr_get jq n page = None"
  by (auto simp: attr_get_def present_def get_el_def split: option.splits)

lemma attr_get_Some_present: "attr_get jq n page = Some v \<Longrightarrow> present jq page"
  using attr_get_not_present by fastforce

lemma expand_present: "expand d i page = Inr page' \<Longrightarrow> present jq page' = present jq page"
  by (simp add: present_def expand_length split: option.splits)

lemma collapse_present: "collapse d i page = Inr page' \<Longrightarrow> present jq page' = present jq page"
  by (simp add: present_def collapse_length split: option.splits)

lemma present_length: "length page' = length page \<Longrightarrow> present jq page' = present jq page"
  by (simp add: present_def split: option.splits)

lemma expand_aria:
  assumes "expand d i page = Inr page'" and "widget_at page i = Some w"
  shows "aria_pressed page' i = (if present (jq_target w) page then Some ''true'' else None)"
    and "aria_expanded page' i = (if present (jq_content w) page then Some ''true'' else None)"
  using assms
  by (auto simp: aria_pressed_def aria_expanded_def expand_widget_at expand_attr_get
      attr_get_not_present)

lemma collapse_aria:
  assumes "collapse d i page = Inr page'" and "widget_at page i = Some w"
  shows "aria_pressed page' i = (if present (jq_target w) page then Some ''false'' else None)"
    and "aria_expanded page' i = (if present (jq_content w) page then Some ''false'' else None)"
  using assms
  by (auto simp: aria_pressed_def aria_expanded_def collapse_widget_at collapse_attr_get
      attr_get_not_present)

lemma expand_observe:
  assumes "expand d i page = Inr page'" and "widget_at page i = Some w"
  shows "observe page' i =
     (True, marker_at page' i, if present (jq_target w) page then Some ''true'' else None,
      if present (jq_content w) page then Some ''true'' else None)"
  using assms expand_aria [OF assms]
  by (simp add: observe_def expand_expanded_at)

lemma collapse_observe:
  assumes "collapse d i page = Inr page'" and "widget_at page i = Some w"
  shows "observe page' i =
     (False, marker_at page' i, if present (jq_target w) page then Some ''false'' else None,
      if present (jq_content w) page then Some ''false'' else None)"
  using assms collapse_aria [OF assms]
  by (simp add: observe_def collapse_expanded_at)

lemma aria_present:
  assumes "widget_at page i = Some w"
  shows "aria_pressed page i = Some v \<Longrightarrow> present (jq_target w) page"
    and "aria_expanded page i = Some v \<Longrightarrow> present (jq_content w) page"
  using assms by (auto simp: aria_pressed_def aria_expanded_def dest: attr_get_Some_present)

text \<open>
  The marker under a repeated call, for any string as \<^verbatim>\<open>expandedClass\<close>: the second
  call finds the class string as the first one left it.
\<close>

lemma expand_marker_kept:
  assumes "expand d i page = Inr page'" and "widget_at page i = Some w" and "marker_at page i"
  shows "marker_at page' i"
proof -
  from class_at_widget [OF assms(2)] obtain cls where c: "class_at page i = Some cls" by blast
  with assms(2,3) have "class_has (expandedClass w) cls" by (simp add: marker_at_class_at)
  then have "class_has (expandedClass w) (class_added (expandedClass w) cls)"
    by (rule class_has_added)
  with c show ?thesis by (simp add: expand_marker_at_self [OF assms(1,2)])
qed

lemma collapse_marker_kept:
  assumes "collapse d i page = Inr page'" and "widget_at page i = Some w"
    and "\<not> marker_at page i"
  shows "\<not> marker_at page' i"
proof -
  from class_at_widget [OF assms(2)] obtain cls where c: "class_at page i = Some cls" by blast
  with assms(2,3) have n: "\<not> class_has (expandedClass w) cls" by (simp add: marker_at_class_at)
  have "\<not> class_has (expandedClass w) (class_removed (expandedClass w) cls)"
  proof (cases "classesToArray (expandedClass w) = []")
    case True
    with n show ?thesis by (simp add: class_removed_Nil)
  next
    case False
    then show ?thesis by (rule class_has_removed)
  qed
  with c show ?thesis by (simp add: collapse_marker_at_self [OF assms(1,2)])
qed

lemma expand_twice_marker:
  assumes "expand d i page = Inr p1" and "expand d' i p1 = Inr p2"
    and "widget_at page i = Some w"
  shows "marker_at p2 i = marker_at p1 i"
proof -
  from class_at_widget [OF assms(3)] obtain cls where c: "class_at page i = Some cls" by blast
  have w1: "widget_at p1 i = Some (w\<lparr>isExpanded := True\<rparr>)"
    using assms(1,3) by (simp add: expand_widget_at)
  have c1: "class_at p1 i = Some (class_added (expandedClass w) cls)"
    using c by (simp add: expand_class_at [OF assms(1,3)])
  show ?thesis
    using c c1
    by (simp add: expand_marker_at_self [OF assms(1,3)] expand_marker_at_self [OF assms(2) w1]
        class_added_idem)
qed

lemma collapse_twice_marker:
  assumes "collapse d i page = Inr p1" and "collapse d' i p1 = Inr p2"
    and "widget_at page i = Some w"
  shows "marker_at p2 i = marker_at p1 i"
proof -
  from class_at_widget [OF assms(3)] obtain cls where c: "class_at page i = Some cls" by blast
  have w1: "widget_at p1 i = Some (w\<lparr>isExpanded := False\<rparr>)"
    using assms(1,3) by (simp add: collapse_widget_at)
  have c1: "class_at p1 i = Some (class_removed (expandedClass w) cls)"
    using c by (simp add: collapse_class_at [OF assms(1,3)])
  show ?thesis
    using c c1
    by (simp add: collapse_marker_at_self [OF assms(1,3)]
        collapse_marker_at_self [OF assms(2) w1] class_removed_idem_has)
qed

subsection \<open>The siblings of a toggle\<close>



lemma each_collapse_total:
  "\<forall>s \<in> set ss. widget_at page s \<noteq> None \<Longrightarrow> \<exists>page'. each_collapse ss page = Inr page'"
proof (induction ss arbitrary: page)
  case Nil
  then show ?case by simp
next
  case (Cons s ss)
  from Cons.prems obtain ws where "widget_at page s = Some ws" by auto
  from collapse_total [OF this] obtain p1 where c: "collapse None s page = Inr p1" by blast
  have "\<forall>s \<in> set ss. widget_at p1 s \<noteq> None"
    using Cons.prems by (auto simp: collapse_widget_at [OF c])
  from Cons.IH [OF this] c show ?case by auto
qed

lemma toggle_total:
  assumes "widget_at page i = Some w"
    and "\<forall>s \<in> set (jq_siblings ''expandable'' i page). widget_at page s \<noteq> None"
  shows "\<exists>page'. toggle i page = Inr page'"
proof (cases "isExpanded w")
  case True
  then show ?thesis using assms(1) collapse_total [OF assms(1)] by (simp add: toggle_def)
next
  case False
  obtain p0 where s: "(if isInAccordion w
      then each_collapse (jq_siblings ''expandable'' i page) page else Inr page) = Inr p0"
    using each_collapse_total [OF assms(2)] by (cases "isInAccordion w") auto
  have "widget_at p0 i = Some w"
    using s assms(1) not_in_jq_siblings [of i "''expandable''" page]
    by (auto simp: each_collapse_widget_at split: if_splits)
  from expand_total [OF this] obtain p1 where "expand None i p0 = Inr p1" by blast
  with s False assms(1) show ?thesis by (simp add: toggle_def)
qed




section \<open>The result of initialisation\<close>

lemma widget_at_update_el:
  "widget_at (update_el i f page) k =
     (if k = i then (case get_el page i of None \<Rightarrow> None | Some e \<Rightarrow> el_widget (f e))
      else widget_at page k)"
  by (auto simp: widget_at_def get_el_update_el split: option.splits)

lemma class_at_update_el:
  "(\<And>e. el_class (f e) = el_class e) \<Longrightarrow> class_at (update_el i f page) k = class_at page k"
  by (auto simp: class_at_def get_el_update_el option.map_comp comp_def)

lemma hasClass_update_el:
  "(\<And>e. el_class (f e) = el_class e) \<Longrightarrow>
   hasClass k c (update_el i f page) = hasClass k c page"
  by (simp add: hasClass_class_at class_at_update_el)

lemma matches_update_el:
  "(\<And>e. el_class (f e) = el_class e) \<Longrightarrow>
   matches k c (update_el i f page) = matches k c page"
  by (simp add: matches_class_at class_at_update_el)

lemma parent_of_update_el:
  "(\<And>e. el_parent (f e) = el_parent e) \<Longrightarrow>
   parent_of (update_el i f page) k = parent_of page k"
  by (auto simp: parent_of_def get_el_update_el split: option.splits)

lemma ancestors_cong:
  "(\<And>k. parent_of page' k = parent_of page k) \<Longrightarrow> ancestors page' i = ancestors page i"
proof (induction page i rule: ancestors.induct)
  case (1 page i)
  show ?case
  proof (cases "parent_of page i")
    case None
    then show ?thesis
      using "1.prems" by (simp add: ancestors.simps [of page'] ancestors.simps [of page])
  next
    case (Some p)
    then show ?thesis
      using "1.prems" "1.IH"
      by (simp add: ancestors.simps [of page' i] ancestors.simps [of page i])
  qed
qed

lemma accordion_data_update_el:
  assumes "\<And>e. el_parent (f e) = el_parent e" and "\<And>e. el_class (f e) = el_class e"
    and "\<And>e. el_data_accordion (f e) = el_data_accordion e"
  shows "accordion_data k (update_el i f page) = accordion_data k page"
proof -
  have a: "ancestors (update_el i f page) k = ancestors page k"
    by (rule ancestors_cong) (simp add: parent_of_update_el assms(1))
  have p: "jq_parents ''expandable-group'' k (update_el i f page)
      = jq_parents ''expandable-group'' k page"
    by (simp add: jq_parents_def a matches_update_el assms(2))
  show ?thesis
    by (auto simp: accordion_data_def p get_el_update_el assms(3) split: list.splits option.splits)
qed

lemma el_click_update:
  "i < length page \<Longrightarrow>
   el_click (update_el i (\<lambda>e. e\<lparr>el_click := el_click e @ [h]\<rparr>) page ! i) = el_click (page ! i) @ [h]"
  by (simp add: update_el_def)

lemma initEvents_result:
  assumes "widget_at page i = Some w"
  shows "\<exists>page'. initEvents i page = Inr page' \<and> widget_at page' i = Some w
     \<and> (\<forall>c. hasClass i c page' = hasClass i c page)
     \<and> el_click (page' ! i) = el_click (page ! i) @ [throttle (throttleDuration w)]"
proof -
  have l: "i < length page" by (rule widget_at_length [OF assms])
  let ?p = "update_el i (\<lambda>e. e\<lparr>el_click := el_click e @ [throttle (throttleDuration w)]\<rparr>) page"
  have "initEvents i page = Inr ?p" using assms by (simp add: initEvents_def)
  moreover have "widget_at ?p i = Some w"
    using assms l by (simp add: widget_at_def get_el_def update_el_def)
  moreover have "\<forall>c. hasClass i c ?p = hasClass i c page"
    by (simp add: hasClass_update_el)
  moreover have "el_click (?p ! i) = el_click (page ! i) @ [throttle (throttleDuration w)]"
    using l by (rule el_click_update)
  ultimately show ?thesis by blast
qed

lemma initUI_result:
  assumes "widget_at page i = Some w"
  shows "\<exists>page' w'. initUI i page = Inr page' \<and> widget_at page' i = Some w'
     \<and> isInAccordion w' = isInAccordion w \<and> expandedClass w' = expandedClass w
     \<and> throttleDuration w' = throttleDuration w
     \<and> isExpanded w' = isExpanded w
     \<and> jq_content w' = jq_find_first ''expandable_content'' i page
     \<and> jq_target w' = jq_find_first ''expandable_target'' i page
     \<and> (is_class_name (expandedClass w) \<longrightarrow>
          hasClass i (expandedClass w) page' = isExpanded w)"
proof -
  define w1 where "w1 = w\<lparr>jq_content := jq_find_first ''expandable_content'' i page,
                   jq_target := jq_find_first ''expandable_target'' i page\<rparr>"
  define p1 where "p1 = update_widget i
            (\<lambda>w. w\<lparr>jq_content := jq_find_first ''expandable_content'' i page,
                   jq_target := jq_find_first ''expandable_target'' i page\<rparr>) page"
  define p2 where "p2 = attr_set (jq_target w1) ''aria-controls''
                           (attr_get (jq_content w1) ''id'' p1) p1"
  have w1: "widget_at p1 i = Some w1" using assms by (simp add: p1_def w1_def)
  have w2: "widget_at p2 i = Some w1" using w1 by (simp add: p2_def)
  have ui: "initUI i page = (if isExpanded w then expand (Some 0) i p2
                else collapse (Some 0) i p2)"
    unfolding initUI_def Let_def p1_def [symmetric]
    by (simp add: w1 p2_def) (simp add: w1_def)
  show ?thesis
  proof (cases "isExpanded w")
    case True
    from expand_total [OF w2] obtain p3 where e: "expand (Some 0) i p2 = Inr p3" by blast
    have "widget_at p3 i = Some (w1\<lparr>isExpanded := True\<rparr>)"
      by (simp add: expand_widget_at [OF e] w2)
    moreover have "hasClass i (expandedClass w) p3" if "is_class_name (expandedClass w)"
    proof -
      from that have "is_class_name (expandedClass w1)" by (simp add: w1_def)
      from expand_marker_at_name [OF e w2 this] show ?thesis
        by (simp add: marker_at_def expand_widget_at [OF e] w2 w1_def)
    qed
    ultimately show ?thesis using True ui e by (simp add: w1_def)
  next
    case False
    from collapse_total [OF w2] obtain p3 where e: "collapse (Some 0) i p2 = Inr p3" by blast
    have "widget_at p3 i = Some (w1\<lparr>isExpanded := False\<rparr>)"
      by (simp add: collapse_widget_at [OF e] w2)
    moreover have "\<not> hasClass i (expandedClass w) p3" if "is_class_name (expandedClass w)"
    proof -
      from that have "is_class_name (expandedClass w1)" by (simp add: w1_def)
      from collapse_marker_at_name [OF e w2 this] show ?thesis
        by (simp add: marker_at_def collapse_widget_at [OF e] w2 w1_def)
    qed
    ultimately show ?thesis using False ui e by (simp add: w1_def)
  qed
qed

lemma accordion_data_update_widget [simp]:
  "accordion_data k (update_widget i g page) = accordion_data k page"
  unfolding update_widget_def by (rule accordion_data_update_el) simp_all

lemma init_result:
  assumes "widget_at page i = Some w"
  shows "\<exists>page' w'. init i page = Inr page' \<and> widget_at page' i = Some w'
     \<and> isInAccordion w' = accordion_data i page \<and> expandedClass w' = expandedClass w
     \<and> throttleDuration w' = throttleDuration w
     \<and> isExpanded w' = hasClass i (expandedClass w) page
     \<and> (is_class_name (expandedClass w) \<longrightarrow>
          hasClass i (expandedClass w') page' = isExpanded w')
     \<and> el_click (page' ! i) \<noteq> []
     \<and> last (el_click (page' ! i)) = throttle (throttleDuration w)"
proof -
  define p1 where "p1 = update_widget i (\<lambda>w. w\<lparr>isInAccordion := accordion_data i page\<rparr>) page"
  define p2 where
    "p2 = update_widget i (\<lambda>w. w\<lparr>isExpanded := hasClass i (expandedClass w) p1\<rparr>) p1"
  define w2 where "w2 = w\<lparr>isInAccordion := accordion_data i page,
               isExpanded := hasClass i (expandedClass w) page\<rparr>"
  have w2: "widget_at p2 i = Some w2" using assms by (simp add: p2_def p1_def w2_def)
  from initUI_result [OF w2] obtain p3 w3 where
    ui: "initUI i p2 = Inr p3" and w3: "widget_at p3 i = Some w3"
    and f: "isInAccordion w3 = isInAccordion w2" "expandedClass w3 = expandedClass w2"
      "throttleDuration w3 = throttleDuration w2"
      "isExpanded w3 = isExpanded w2"
      "is_class_name (expandedClass w2) \<longrightarrow> hasClass i (expandedClass w2) p3 = isExpanded w2"
    by blast
  from initEvents_result [OF w3] obtain p4 where
    ev: "initEvents i p3 = Inr p4" and w4: "widget_at p4 i = Some w3"
    and h: "\<forall>c. hasClass i c p4 = hasClass i c p3"
    and k: "el_click (p4 ! i) = el_click (p3 ! i) @ [throttle (throttleDuration w3)]"
    by blast
  have "init i page = Inr p4"
    unfolding init_def Let_def p1_def [symmetric] p2_def [symmetric] using ui ev by simp
  moreover have "isInAccordion w3 = accordion_data i page" using f(1) by (simp add: w2_def)
  moreover have "expandedClass w3 = expandedClass w" using f(2) by (simp add: w2_def)
  moreover have "throttleDuration w3 = throttleDuration w" using f(3) by (simp add: w2_def)
  moreover have "isExpanded w3 = hasClass i (expandedClass w) page"
    using f(4) by (simp add: w2_def)
  moreover have "is_class_name (expandedClass w) \<longrightarrow>
      hasClass i (expandedClass w3) p4 = isExpanded w3"
    using f(2,4,5) h by (simp add: w2_def)
  moreover have "el_click (p4 ! i) \<noteq> []" using k by simp
  moreover have "last (el_click (p4 ! i)) = throttle (throttleDuration w)"
    using k f(3) by (simp add: w2_def)
  ultimately show ?thesis using w4 by blast
qed

lemma create_result:
  assumes "i < length page"
  shows "\<exists>page' w'. create opts i page = Inr page' \<and> widget_at page' i = Some w'
     \<and> expandedClass w' =
         (case o_expandedClass opts of None \<Rightarrow> ''expandable__expanded'' | Some c \<Rightarrow> c)
     \<and> throttleDuration w' = (case o_throttleDuration opts of None \<Rightarrow> 450 | Some d \<Rightarrow> d)
     \<and> isInAccordion w' = accordion_data i page
     \<and> isExpanded w' = hasClass i (expandedClass w') page
     \<and> (is_class_name (expandedClass w') \<longrightarrow> consistent page' i)
     \<and> el_click (page' ! i) \<noteq> []
     \<and> last (el_click (page' ! i)) = throttle (throttleDuration w')"
proof -
  let ?props = "extend_properties defaultProperties opts"
  let ?f = "\<lambda>e. e\<lparr>el_widget := Some
               (case el_widget e of
                  None \<Rightarrow> \<lparr>isInAccordion = p_isInAccordion ?props,
                            expandedClass = p_expandedClass ?props,
                            throttleDuration = p_throttleDuration ?props,
                            isExpanded = False, jq_content = None, jq_target = None\<rparr>
                | Some w \<Rightarrow> w\<lparr>isInAccordion := p_isInAccordion ?props,
                               expandedClass := p_expandedClass ?props,
                               throttleDuration := p_throttleDuration ?props\<rparr>)\<rparr>"
  define p1 where "p1 = update_el i ?f page"
  obtain w1 where w1: "widget_at p1 i = Some w1"
    and c1: "expandedClass w1 = p_expandedClass ?props"
    and t1: "throttleDuration w1 = p_throttleDuration ?props"
    using assms by (auto simp: p1_def widget_at_update_el get_el_def split: option.splits)
  have acc: "accordion_data i p1 = accordion_data i page"
    unfolding p1_def by (rule accordion_data_update_el) simp_all
  have cls: "\<And>c. hasClass i c p1 = hasClass i c page"
    unfolding p1_def by (rule hasClass_update_el) simp
  from init_result [OF w1] obtain page' w' where
    r: "init i p1 = Inr page'" and w': "widget_at page' i = Some w'"
    and f: "isInAccordion w' = accordion_data i p1" "expandedClass w' = expandedClass w1"
     "throttleDuration w' = throttleDuration w1"
     "isExpanded w' = hasClass i (expandedClass w1) p1"
     "is_class_name (expandedClass w1) \<longrightarrow> hasClass i (expandedClass w') page' = isExpanded w'"
     "el_click (page' ! i) \<noteq> []"
     "last (el_click (page' ! i)) = throttle (throttleDuration w1)"
    by blast
  have cr: "create opts i page = Inr page'"
    unfolding create_def Let_def p1_def [symmetric] by (rule r)
  have "is_class_name (expandedClass w') \<longrightarrow> consistent page' i"
    using w' f(2,5) by (simp add: consistent_def expanded_at_def marker_at_def)
  moreover have "expandedClass w' =
         (case o_expandedClass opts of None \<Rightarrow> ''expandable__expanded'' | Some c \<Rightarrow> c)"
    using f(2) c1 by (simp add: extend_properties_def defaultProperties_def split: option.splits)
  moreover have "throttleDuration w' =
         (case o_throttleDuration opts of None \<Rightarrow> 450 | Some d \<Rightarrow> d)"
    using f(3) t1 by (simp add: extend_properties_def defaultProperties_def split: option.splits)
  moreover have "isInAccordion w' = accordion_data i page"
    using f(1) acc by simp
  moreover have "isExpanded w' = hasClass i (expandedClass w') page"
    using f(4) f(2) cls by simp
  moreover have "last (el_click (page' ! i)) = throttle (throttleDuration w')"
    using f(7) f(3) by simp
  ultimately show ?thesis
    using cr w' f(6) by blast
qed

section \<open>The example pages and the throttle\<close>

lemma single_page_init: "expandable no_options [0] single_markup = Inr single_page"
  by code_simp

lemma accordion_page_init: "expandable no_options [1, 4] accordion_markup = Inr accordion_page"
  by code_simp

lemma partial_page_init: "expandable no_options [1] accordion_markup = Inr partial_page"
  by code_simp

lemma wrapped_page_init: "expandable no_options [2, 6] wrapped_markup = Inr wrapped_page"
  by code_simp







lemma single_widget: "widget_at single_page 0 = Some (default_widget False False 2 1)"
  by code_simp


lemma accordion_widget_B: "widget_at accordion_page 4 = Some (default_widget True True 6 5)"
  by code_simp

lemma single_toggle_total: "\<exists>p. toggle 0 single_page = Inr p"
proof -
  have "\<forall>s \<in> set (jq_siblings ''expandable'' 0 single_page). widget_at single_page s \<noteq> None"
    by code_simp
  from toggle_total [OF single_widget this] show ?thesis .
qed

lemma default_widget_class_name: "is_class_name (expandedClass (default_widget acc ex c t))"
  by (simp add: default_widget_def default_class_name)

section \<open>The widget state\<close>

text \<open>
  Claim C4, as the code has it. Let the widget on an element have a single class name
  for its \<^verbatim>\<open>expandedClass\<close>. An expand and a collapse call return. After expand
  \<^verbatim>\<open>isExpanded\<close> is true and the container has the \<^verbatim>\<open>expandedClass\<close> marker; after
  collapse \<^verbatim>\<open>isExpanded\<close> is false and the container does not have it. Both hold in
  the page that the call returns, and they hold whatever the animation engine does to
  the style of the elements, during the call or after it. The equivalence of
  \<^verbatim>\<open>isExpanded\<close> and the marker is an invariant: expand and collapse keep it for every
  widget of the page; a toggle that returns establishes it for its own widget, and keeps
  it for every widget when every widget of the page has a single class name. And
  \<^verbatim>\<open>create\<close> on any element of the page establishes it for the widget it makes, when
  the \<^verbatim>\<open>expandedClass\<close> it merges is a single class name.
\<close>

theorem expand_collapse_marker:
  assumes "i < length page"
  shows "(\<forall>w. widget_at page i = Some w \<and> is_class_name (expandedClass w) \<longrightarrow>
           (\<exists>p1 p2. expand d i page = Inr p1 \<and> collapse d i page = Inr p2
              \<and> expanded_at p1 i \<and> marker_at p1 i
              \<and> \<not> expanded_at p2 i \<and> \<not> marker_at p2 i
              \<and> (\<forall>f. expanded_at (animate f p1) i \<and> marker_at (animate f p1) i
                    \<and> \<not> expanded_at (animate f p2) i \<and> \<not> marker_at (animate f p2) i)
              \<and> (\<forall>k. consistent page k \<longrightarrow> consistent p1 k \<and> consistent p2 k)
              \<and> (\<forall>p3. toggle i page = Inr p3 \<longrightarrow>
                    consistent p3 i
                  \<and> (class_names_ok page \<longrightarrow>
                       (\<forall>k. consistent page k \<longrightarrow> consistent p3 k)))))
       \<and> (\<forall>opts. is_class_name
             (case o_expandedClass opts of
                None \<Rightarrow> p_expandedClass defaultProperties | Some c \<Rightarrow> c) \<longrightarrow>
           (\<exists>p4. create opts i page = Inr p4 \<and> consistent p4 i))"
proof -
  have main: "\<exists>p1 p2. expand d i page = Inr p1 \<and> collapse d i page = Inr p2
              \<and> expanded_at p1 i \<and> marker_at p1 i
              \<and> \<not> expanded_at p2 i \<and> \<not> marker_at p2 i
              \<and> (\<forall>f. expanded_at (animate f p1) i \<and> marker_at (animate f p1) i
                    \<and> \<not> expanded_at (animate f p2) i \<and> \<not> marker_at (animate f p2) i)
              \<and> (\<forall>k. consistent page k \<longrightarrow> consistent p1 k \<and> consistent p2 k)
              \<and> (\<forall>p3. toggle i page = Inr p3 \<longrightarrow>
                    consistent p3 i
                  \<and> (class_names_ok page \<longrightarrow>
                       (\<forall>k. consistent page k \<longrightarrow> consistent p3 k)))"
    if w: "widget_at page i = Some w" and n: "is_class_name (expandedClass w)" for w
  proof -
    from expand_total [OF w] obtain p1 where e: "expand d i page = Inr p1" by blast
    from collapse_total [OF w] obtain p2 where c: "collapse d i page = Inr p2" by blast
    have a: "expanded_at p1 i" "marker_at p1 i"
      using e expand_marker_at_name [OF e w n] by (simp_all add: expand_expanded_at)
    have b: "\<not> expanded_at p2 i" "\<not> marker_at p2 i"
      using c collapse_marker_at_name [OF c w n] by (simp_all add: collapse_expanded_at)
    have an: "\<forall>f. expanded_at (animate f p1) i \<and> marker_at (animate f p1) i
           \<and> \<not> expanded_at (animate f p2) i \<and> \<not> marker_at (animate f p2) i"
      using a b by simp
    have co: "consistent page k \<longrightarrow> consistent p1 k \<and> consistent p2 k" for k
      using expand_consistent_other [OF e, of k] collapse_consistent_other [OF c, of k]
        expand_consistent_name [OF e w n] collapse_consistent_name [OF c w n]
      by (cases "k = i") simp_all
    have tg: "\<forall>p3. toggle i page = Inr p3 \<longrightarrow>
           consistent p3 i
         \<and> (class_names_ok page \<longrightarrow> (\<forall>k. consistent page k \<longrightarrow> consistent p3 k))"
      using toggle_consistent toggle_consistent_self [OF _ w n] by blast
    from a b an co tg e c show ?thesis by blast
  qed
  have cr: "\<exists>p4. create opts i page = Inr p4 \<and> consistent p4 i"
    if "is_class_name (case o_expandedClass opts of
          None \<Rightarrow> p_expandedClass defaultProperties | Some c \<Rightarrow> c)" for opts
  proof -
    have defaults: "p_expandedClass defaultProperties = ''expandable__expanded''"
      by (simp add: defaultProperties_def)
    from create_result [OF assms, of opts] obtain p4 w4 where
      "create opts i page = Inr p4" "widget_at p4 i = Some w4"
      "expandedClass w4 =
         (case o_expandedClass opts of None \<Rightarrow> ''expandable__expanded'' | Some c \<Rightarrow> c)"
      "is_class_name (expandedClass w4) \<longrightarrow> consistent p4 i"
      by blast
    with that show ?thesis unfolding defaults by auto
  qed
  from main cr show ?thesis by blast
qed

text \<open>
  The theorem at the single expandable after its initialisation, whose
  \<^verbatim>\<open>expandedClass\<close> is the default and where the invariant holds, and at its
  markup for \<^verbatim>\<open>create\<close> without options.
\<close>

theorem expand_collapse_marker_witness:
  "\<exists>p1 p2 p3 p4. expand None 0 single_page = Inr p1 \<and> collapse None 0 single_page = Inr p2
     \<and> toggle 0 single_page = Inr p3 \<and> create no_options 0 single_markup = Inr p4
     \<and> expanded_at p1 0 \<and> marker_at p1 0
     \<and> \<not> expanded_at p2 0 \<and> \<not> marker_at p2 0
     \<and> expanded_at (animate (\<lambda>k. (False, 0)) p1) 0 \<and> marker_at (animate (\<lambda>k. (False, 0)) p1) 0
     \<and> class_names_ok single_page \<and> consistent single_page 0
     \<and> consistent p1 0 \<and> consistent p2 0 \<and> consistent p3 0 \<and> consistent p4 0"
proof -
  have l: "0 < length single_page" "0 < length single_markup"
    by (simp_all add: single_page_def single_markup_def)
  have n: "is_class_name (expandedClass (default_widget False False 2 1))"
    by (rule default_widget_class_name)
  have o: "is_class_name (case o_expandedClass no_options of
      None \<Rightarrow> p_expandedClass defaultProperties | Some c \<Rightarrow> c)"
    by (simp add: no_options_def defaultProperties_def default_class_name)
  have ok: "class_names_ok single_page" by code_simp
  have co: "consistent single_page 0" by code_simp
  from single_toggle_total obtain p3 where t: "toggle 0 single_page = Inr p3" by blast
  from expand_collapse_marker [OF l(1), of None] single_widget n
  obtain p1 p2 where a: "expand None 0 single_page = Inr p1 \<and> collapse None 0 single_page = Inr p2
     \<and> expanded_at p1 0 \<and> marker_at p1 0
     \<and> \<not> expanded_at p2 0 \<and> \<not> marker_at p2 0
     \<and> expanded_at (animate (\<lambda>k. (False, 0)) p1) 0 \<and> marker_at (animate (\<lambda>k. (False, 0)) p1) 0
     \<and> consistent p1 0 \<and> consistent p2 0 \<and> consistent p3 0"
    using ok co t by blast
  from expand_collapse_marker [OF l(2), of None] o
  obtain p4 where b: "create no_options 0 single_markup = Inr p4 \<and> consistent p4 0" by blast
  from a b t ok co show ?thesis by blast
qed

text \<open>
  The claim as it was stated fails for an \<^verbatim>\<open>expandedClass\<close> that holds no class name.
  \<^verbatim>\<open>.expandable( { expandedClass: '' } )\<close> on the single expandable completes;
  \<^verbatim>\<open>addClass( '' )\<close> adds nothing, so the expand call that follows returns with
  \<^verbatim>\<open>isExpanded\<close> true and \<^verbatim>\<open>hasClass( '' )\<close> false on the container.
\<close>

theorem expand_marker_counterexample:
  "create empty_class_options 0 single_markup = Inr empty_class_page
   \<and> map_option expandedClass (widget_at empty_class_page 0) = Some []
   \<and> expand None 0 empty_class_page = Inr (page_of (expand None 0 empty_class_page))
   \<and> expanded_at (page_of (expand None 0 empty_class_page)) 0
   \<and> \<not> marker_at (page_of (expand None 0 empty_class_page)) 0"
  by code_simp

text \<open>
  Claim C7. For a widget that starts collapsed, with \<^verbatim>\<open>aria-pressed\<close> of the trigger and
  \<^verbatim>\<open>aria-expanded\<close> of the content at \<^verbatim>\<open>"false"\<close>, expand followed by collapse, and
  likewise two toggles in succession, return \<^verbatim>\<open>isExpanded\<close> to its original value
  \<open>False\<close> and both attributes to their original values; in between the widget is
  expanded and both attributes are \<^verbatim>\<open>"true"\<close>.
\<close>

theorem toggle_twice_restores:
  assumes "widget_at page i = Some w" and "\<not> isExpanded w"
    and "aria_pressed page i = Some ''false''" and "aria_expanded page i = Some ''false''"
  shows "(\<exists>p1 p2. expand d i page = Inr p1 \<and> collapse d' i p1 = Inr p2
            \<and> expanded_at p1 i
            \<and> aria_pressed p1 i = Some ''true'' \<and> aria_expanded p1 i = Some ''true''
            \<and> expanded_at p2 i = expanded_at page i \<and> \<not> expanded_at p2 i
            \<and> aria_pressed p2 i = aria_pressed page i
            \<and> aria_expanded p2 i = aria_expanded page i)
       \<and> (\<forall>p1 p2. toggle i page = Inr p1 \<and> toggle i p1 = Inr p2 \<longrightarrow>
            expanded_at p1 i
            \<and> aria_pressed p1 i = Some ''true'' \<and> aria_expanded p1 i = Some ''true''
            \<and> expanded_at p2 i = expanded_at page i \<and> \<not> expanded_at p2 i
            \<and> aria_pressed p2 i = aria_pressed page i
            \<and> aria_expanded p2 i = aria_expanded page i)"
proof -
  have pt: "present (jq_target w) page" and pc: "present (jq_content w) page"
    using aria_present [OF assms(1)] assms(3,4) by blast+
  have ex0: "\<not> expanded_at page i" using assms(1,2) by (simp add: expanded_at_def)
  have step: "expanded_at p1 i
            \<and> aria_pressed p1 i = Some ''true'' \<and> aria_expanded p1 i = Some ''true''
            \<and> expanded_at p2 i = expanded_at page i \<and> \<not> expanded_at p2 i
            \<and> aria_pressed p2 i = aria_pressed page i
            \<and> aria_expanded p2 i = aria_expanded page i"
    if w0: "widget_at p0 i = Some w" and l0: "length p0 = length page"
      and e: "expand d1 i p0 = Inr p1" and c: "collapse d2 i p1 = Inr p2"
    for p0 p1 p2 d1 d2
  proof -
    have w1: "widget_at p1 i = Some (w\<lparr>isExpanded := True\<rparr>)"
      using e w0 by (simp add: expand_widget_at)
    have p0: "present (jq_target w) p0" "present (jq_content w) p0"
      using pt pc present_length [OF l0] by simp_all
    then have p1: "present (jq_target w) p1" "present (jq_content w) p1"
      using expand_present [OF e] by simp_all
    show ?thesis
      using expand_aria [OF e w0] collapse_aria [OF c w1] p0 p1 ex0 assms(3,4)
        expand_expanded_at [OF e, of i] collapse_expanded_at [OF c, of i]
      by simp
  qed
  have first: "\<exists>p1 p2. expand d i page = Inr p1 \<and> collapse d' i p1 = Inr p2
            \<and> expanded_at p1 i
            \<and> aria_pressed p1 i = Some ''true'' \<and> aria_expanded p1 i = Some ''true''
            \<and> expanded_at p2 i = expanded_at page i \<and> \<not> expanded_at p2 i
            \<and> aria_pressed p2 i = aria_pressed page i
            \<and> aria_expanded p2 i = aria_expanded page i"
  proof -
    from expand_total [OF assms(1)] obtain p1 where e: "expand d i page = Inr p1" by blast
    have "widget_at p1 i = Some (w\<lparr>isExpanded := True\<rparr>)"
      using e assms(1) by (simp add: expand_widget_at)
    from collapse_total [OF this] obtain p2 where c: "collapse d' i p1 = Inr p2" by blast
    from step [OF assms(1) refl e c] e c show ?thesis by blast
  qed
  have second: "expanded_at p1 i
            \<and> aria_pressed p1 i = Some ''true'' \<and> aria_expanded p1 i = Some ''true''
            \<and> expanded_at p2 i = expanded_at page i \<and> \<not> expanded_at p2 i
            \<and> aria_pressed p2 i = aria_pressed page i
            \<and> aria_expanded p2 i = aria_expanded page i"
    if t1: "toggle i page = Inr p1" and t2: "toggle i p1 = Inr p2" for p1 p2
  proof -
    from toggle_collapsed [OF assms(1,2) t1] obtain p0 where
      w0: "widget_at p0 i = Some w" and l0: "length p0 = length page"
      and e: "expand None i p0 = Inr p1" by blast
    have w1: "widget_at p1 i = Some (w\<lparr>isExpanded := True\<rparr>)"
      using e w0 by (simp add: expand_widget_at)
    have c: "collapse None i p1 = Inr p2"
      using t2 toggle_expanded [OF w1] by simp
    from step [OF w0 l0 e c] show ?thesis .
  qed
  from first second show ?thesis by blast
qed

text \<open>
  Two toggles on the single expandable after its initialisation.
\<close>

theorem toggle_twice_restores_witness:
  "\<exists>p1 p2. toggle 0 single_page = Inr p1 \<and> toggle 0 p1 = Inr p2
     \<and> \<not> expanded_at single_page 0
     \<and> aria_pressed single_page 0 = Some ''false'' \<and> aria_expanded single_page 0 = Some ''false''
     \<and> expanded_at p1 0 \<and> aria_pressed p1 0 = Some ''true'' \<and> aria_expanded p1 0 = Some ''true''
     \<and> \<not> expanded_at p2 0
     \<and> aria_pressed p2 0 = Some ''false'' \<and> aria_expanded p2 0 = Some ''false''"
proof -
  have ne: "\<not> isExpanded (default_widget False False 2 1)" by (simp add: default_widget_def)
  have ap: "aria_pressed single_page 0 = Some ''false''" by code_simp
  have ae: "aria_expanded single_page 0 = Some ''false''" by code_simp
  have e0: "\<not> expanded_at single_page 0" by code_simp
  from single_toggle_total obtain p1 where t1: "toggle 0 single_page = Inr p1" by blast
  from toggle_collapsed [OF single_widget ne t1] obtain p0 where
    w0: "widget_at p0 0 = Some (default_widget False False 2 1)"
    and e: "expand None 0 p0 = Inr p1" by blast
  have w1: "widget_at p1 0 = Some ((default_widget False False 2 1)\<lparr>isExpanded := True\<rparr>)"
    by (simp add: expand_widget_at [OF e] w0)
  from collapse_total [OF w1] obtain p2 where "collapse None 0 p1 = Inr p2" by blast
  then have t2: "toggle 0 p1 = Inr p2" by (simp add: toggle_expanded [OF w1])
  from toggle_twice_restores [OF single_widget ne ap ae, of None None] t1 t2 ap ae e0
  show ?thesis by auto
qed

text \<open>
  Claim C10. Expand and collapse are idempotent on the observable state. On a widget
  whose \<^verbatim>\<open>isExpanded\<close>, marker class, \<^verbatim>\<open>aria-pressed\<close> and \<^verbatim>\<open>aria-expanded\<close> are at
  their expanded values, expand returns and leaves all four unchanged, and collapse does
  the same at the collapsed values; and a second expand (or collapse) right after a first
  one changes none of the four, whatever the durations.
\<close>

theorem expand_collapse_idempotent:
  assumes "widget_at page i = Some w"
  shows "(observe page i = (True, True, Some ''true'', Some ''true'') \<longrightarrow>
            (\<exists>p. expand d i page = Inr p \<and> observe p i = observe page i))
       \<and> (observe page i = (False, False, Some ''false'', Some ''false'') \<longrightarrow>
            (\<exists>p. collapse d i page = Inr p \<and> observe p i = observe page i))
       \<and> (\<exists>p1 p2. expand d i page = Inr p1 \<and> expand d' i p1 = Inr p2
            \<and> observe p2 i = observe p1 i)
       \<and> (\<exists>p1 p2. collapse d i page = Inr p1 \<and> collapse d' i p1 = Inr p2
            \<and> observe p2 i = observe p1 i)"
proof -
  from expand_total [OF assms] obtain p1 where e1: "expand d i page = Inr p1" by blast
  from collapse_total [OF assms] obtain q1 where c1: "collapse d i page = Inr q1" by blast
  have wp: "widget_at p1 i = Some (w\<lparr>isExpanded := True\<rparr>)"
    using e1 assms by (simp add: expand_widget_at)
  have wq: "widget_at q1 i = Some (w\<lparr>isExpanded := False\<rparr>)"
    using c1 assms by (simp add: collapse_widget_at)
  from expand_total [OF wp] obtain p2 where e2: "expand d' i p1 = Inr p2" by blast
  from collapse_total [OF wq] obtain q2 where c2: "collapse d' i q1 = Inr q2" by blast
  have a: "observe page i = (True, True, Some ''true'', Some ''true'') \<longrightarrow>
            (\<exists>p. expand d i page = Inr p \<and> observe p i = observe page i)"
  proof
    assume o: "observe page i = (True, True, Some ''true'', Some ''true'')"
    then have "present (jq_target w) page" "present (jq_content w) page"
      using aria_present [OF assms] by (simp_all add: observe_def)
    moreover from o have "marker_at page i" by (simp add: observe_def)
    then have "marker_at p1 i" by (rule expand_marker_kept [OF e1 assms])
    ultimately have "observe p1 i = observe page i"
      using expand_observe [OF e1 assms] o by simp
    with e1 show "\<exists>p. expand d i page = Inr p \<and> observe p i = observe page i" by blast
  qed
  have b: "observe page i = (False, False, Some ''false'', Some ''false'') \<longrightarrow>
            (\<exists>p. collapse d i page = Inr p \<and> observe p i = observe page i)"
  proof
    assume o: "observe page i = (False, False, Some ''false'', Some ''false'')"
    then have "present (jq_target w) page" "present (jq_content w) page"
      using aria_present [OF assms] by (simp_all add: observe_def)
    moreover from o have "\<not> marker_at page i" by (simp add: observe_def)
    then have "\<not> marker_at q1 i" by (rule collapse_marker_kept [OF c1 assms])
    ultimately have "observe q1 i = observe page i"
      using collapse_observe [OF c1 assms] o by simp
    with c1 show "\<exists>p. collapse d i page = Inr p \<and> observe p i = observe page i" by blast
  qed
  have "observe p2 i = observe p1 i"
    using expand_observe [OF e2 wp] expand_observe [OF e1 assms] expand_present [OF e1]
      expand_twice_marker [OF e1 e2 assms]
    by simp
  with e1 e2 have c: "\<exists>p1 p2. expand d i page = Inr p1 \<and> expand d' i p1 = Inr p2
            \<and> observe p2 i = observe p1 i" by blast
  have "observe q2 i = observe q1 i"
    using collapse_observe [OF c2 wq] collapse_observe [OF c1 assms] collapse_present [OF c1]
      collapse_twice_marker [OF c1 c2 assms]
    by simp
  with c1 c2 have d: "\<exists>p1 p2. collapse d i page = Inr p1 \<and> collapse d' i p1 = Inr p2
            \<and> observe p2 i = observe p1 i" by blast
  from a b c d show ?thesis by blast
qed

text \<open>
  Expand on the expanded B of the accordion page, and collapse on the collapsed single
  expandable.
\<close>

theorem expand_collapse_idempotent_witness:
  "observe accordion_page 4 = (True, True, Some ''true'', Some ''true'')
   \<and> (\<exists>p. expand None 4 accordion_page = Inr p \<and> observe p 4 = observe accordion_page 4)
   \<and> observe single_page 0 = (False, False, Some ''false'', Some ''false'')
   \<and> (\<exists>p. collapse None 0 single_page = Inr p \<and> observe p 0 = observe single_page 0)"
proof -
  have a: "observe accordion_page 4 = (True, True, Some ''true'', Some ''true'')"
    by code_simp
  have b: "observe single_page 0 = (False, False, Some ''false'', Some ''false'')"
    by code_simp
  from expand_collapse_idempotent [OF accordion_widget_B, of None None] a
    expand_collapse_idempotent [OF single_widget, of None None] b
  show ?thesis by blast
qed

section \<open>The accordion\<close>




section \<open>The options\<close>

text \<open>
  Claim C8, as the code has it. After \<^verbatim>\<open>create\<close> on an element of the page, the
  instance has the caller's \<^verbatim>\<open>expandedClass\<close> and \<^verbatim>\<open>throttleDuration\<close> where the
  caller gave them and the defaults where not, and the handler is bound with that
  throttle duration. \<^verbatim>\<open>isInAccordion\<close> is what \<^verbatim>\<open>init\<close> reads from the nearest
  ancestor of class \<^verbatim>\<open>expandable-group\<close>, whatever the caller gave.
\<close>

theorem create_properties:
  assumes "i < length page"
  shows "\<exists>page' w'. create opts i page = Inr page' \<and> widget_at page' i = Some w'
     \<and> expandedClass w' =
         (case o_expandedClass opts of
            None \<Rightarrow> p_expandedClass defaultProperties | Some c \<Rightarrow> c)
     \<and> throttleDuration w' =
         (case o_throttleDuration opts of
            None \<Rightarrow> p_throttleDuration defaultProperties | Some d \<Rightarrow> d)
     \<and> isInAccordion w' = accordion_data i page
     \<and> el_click (page' ! i) \<noteq> []
     \<and> last (el_click (page' ! i)) = throttle (throttleDuration w')"
proof -
  have defaults: "p_expandedClass defaultProperties = ''expandable__expanded''"
    "p_throttleDuration defaultProperties = 450"
    by (simp_all add: defaultProperties_def)
  from create_result [OF assms, of opts] show ?thesis
    unfolding defaults by blast
qed

text \<open>
  \<^verbatim>\<open>create\<close> on the single expandable with all three options given.
\<close>

theorem create_properties_witness:
  "\<exists>page' w'. create caller_options 0 single_markup = Inr page' \<and> widget_at page' 0 = Some w'
     \<and> expandedClass w' = ''open'' \<and> throttleDuration w' = 200
     \<and> last (el_click (page' ! 0)) = throttle 200"
proof -
  have l: "0 < length single_markup" by (simp add: single_markup_def)
  from create_properties [OF l, of caller_options] show ?thesis
    by (auto simp: caller_options_def)
qed

text \<open>
  The claim as it was stated fails for \<^verbatim>\<open>isInAccordion\<close>: the caller gives \<open>True\<close>, the
  default is \<open>False\<close>, and the instance on the single expandable, which has no group
  above it, ends with \<open>False\<close>.
\<close>

theorem create_isInAccordion_counterexample:
  "o_isInAccordion caller_options = Some True
   \<and> p_isInAccordion defaultProperties = False
   \<and> create caller_options 0 single_markup = Inr (page_of (create caller_options 0 single_markup))
   \<and> map_option isInAccordion (widget_at (page_of (create caller_options 0 single_markup)) 0)
       = Some False"
  by code_simp

section \<open>The throttle as a rate limiter\<close>




end
